theory Spec2Isabelle
  imports Complex_Main
begin

section \<open>JavaScript numbers and typed arrays\<close>

text \<open>
  The converter computes with JavaScript numbers. A finite number is modelled by an exact
  rational; the three non-finite values are kept apart, because the code starts its
  minimum search at \<open>Infinity\<close> and divides by quantities that can be zero. Rounding of
  IEEE arithmetic and the sign of zero are not modelled.
\<close>

datatype jsnum = Fin rat | PInf | NInf | NaN

datatype error = TypeError | RangeError

fun js_lt :: "jsnum \<Rightarrow> jsnum \<Rightarrow> bool" where
  "js_lt NaN _ = False"
| "js_lt _ NaN = False"
| "js_lt (Fin a) (Fin b) = (a < b)"
| "js_lt (Fin a) PInf = True"
| "js_lt (Fin a) NInf = False"
| "js_lt PInf _ = False"
| "js_lt NInf NInf = False"
| "js_lt NInf _ = True"

fun js_neg :: "jsnum \<Rightarrow> jsnum" where
  "js_neg (Fin a) = Fin (- a)"
| "js_neg PInf = NInf"
| "js_neg NInf = PInf"
| "js_neg NaN = NaN"

fun js_add :: "jsnum \<Rightarrow> jsnum \<Rightarrow> jsnum" where
  "js_add NaN _ = NaN"
| "js_add _ NaN = NaN"
| "js_add (Fin a) (Fin b) = Fin (a + b)"
| "js_add PInf NInf = NaN"
| "js_add NInf PInf = NaN"
| "js_add PInf _ = PInf"
| "js_add _ PInf = PInf"
| "js_add NInf _ = NInf"
| "js_add _ NInf = NInf"

definition js_sub :: "jsnum \<Rightarrow> jsnum \<Rightarrow> jsnum" where
  "js_sub a b = js_add a (js_neg b)"

fun js_mul :: "jsnum \<Rightarrow> jsnum \<Rightarrow> jsnum" where
  "js_mul NaN _ = NaN"
| "js_mul _ NaN = NaN"
| "js_mul (Fin a) (Fin b) = Fin (a * b)"
| "js_mul (Fin a) PInf = (if a = 0 then NaN else if 0 < a then PInf else NInf)"
| "js_mul (Fin a) NInf = (if a = 0 then NaN else if 0 < a then NInf else PInf)"
| "js_mul PInf (Fin b) = (if b = 0 then NaN else if 0 < b then PInf else NInf)"
| "js_mul NInf (Fin b) = (if b = 0 then NaN else if 0 < b then NInf else PInf)"
| "js_mul PInf PInf = PInf"
| "js_mul PInf NInf = NInf"
| "js_mul NInf PInf = NInf"
| "js_mul NInf NInf = PInf"

text \<open>Division; a zero divisor is taken to be \<open>+0\<close>.\<close>

fun js_div :: "jsnum \<Rightarrow> jsnum \<Rightarrow> jsnum" where
  "js_div NaN _ = NaN"
| "js_div _ NaN = NaN"
| "js_div (Fin a) (Fin b) =
     (if b = 0 then (if a = 0 then NaN else if 0 < a then PInf else NInf) else Fin (a / b))"
| "js_div (Fin a) _ = Fin 0"
| "js_div PInf (Fin b) = (if 0 \<le> b then PInf else NInf)"
| "js_div NInf (Fin b) = (if 0 \<le> b then NInf else PInf)"
| "js_div _ _ = NaN"

text \<open>\<open>Math.max\<close>, \<open>Math.min\<close>, \<open>Math.round\<close> (a half rounds up) and \<open>Math.floor\<close>.\<close>

fun js_max :: "jsnum \<Rightarrow> jsnum \<Rightarrow> jsnum" where
  "js_max NaN _ = NaN"
| "js_max _ NaN = NaN"
| "js_max a b = (if js_lt a b then b else a)"


fun js_round :: "jsnum \<Rightarrow> jsnum" where
  "js_round (Fin a) = Fin (of_int \<lfloor>a + 1 / 2\<rfloor>)"
| "js_round a = a"

fun js_floor :: "jsnum \<Rightarrow> jsnum" where
  "js_floor (Fin a) = Fin (of_int \<lfloor>a\<rfloor>)"
| "js_floor a = a"

definition js_nat :: "nat \<Rightarrow> jsnum" where
  "js_nat n = Fin (of_nat n)"

text \<open>
  Storing a number into a \<open>Uint8ClampedArray\<close> clamps it to 0..255 and rounds it to the
  nearest integer, a tie going to the even one.
\<close>

definition roundHalfEven :: "rat \<Rightarrow> int" where
  "roundHalfEven x =
     (let f = \<lfloor>x\<rfloor>; d = x - of_int f
      in if d < 1 / 2 then f else if 1 / 2 < d then f + 1 else if even f then f else f + 1)"

definition toUint8Clamped :: "rat \<Rightarrow> nat" where
  "toUint8Clamped x = nat (roundHalfEven (max 0 (min 255 x)))"

text \<open>A counting loop \<open>for (let i = i0; i < n; i++) body\<close> over a state, without and with errors.\<close>

function forLoop :: "nat \<Rightarrow> nat \<Rightarrow> (nat \<Rightarrow> 's \<Rightarrow> 's) \<Rightarrow> 's \<Rightarrow> 's" where
  "forLoop i n body s = (if i < n then forLoop (i + 1) n body (body i s) else s)"
  by pat_completeness auto
termination
  by (relation "measure (\<lambda>(i, n, body, s). n - i)") auto

function forLoopE :: "nat \<Rightarrow> nat \<Rightarrow> (nat \<Rightarrow> 's \<Rightarrow> error + 's) \<Rightarrow> 's \<Rightarrow> error + 's" where
  "forLoopE i n body s =
     (if i < n
      then (case body i s of Inl e \<Rightarrow> Inl e | Inr s' \<Rightarrow> forLoopE (i + 1) n body s')
      else Inr s)"
  by pat_completeness auto
termination
  by (relation "measure (\<lambda>(i, n, body, s). n - i)") auto

declare forLoop.simps [simp del] forLoopE.simps [simp del]

section \<open>The raster\<close>

text \<open>
  A canvas \<open>ImageData\<close>: \<open>data\<close> is a \<open>Uint8ClampedArray\<close> of RGBA bytes in row-major order.
  The browser only hands out objects with \<open>data.length = 4 * width * height\<close> and bytes
  from 0 to 255, which is \<open>wf_ImageData\<close>; on such an object every index that \<open>dither\<close>
  computes lies inside \<open>data\<close>.
\<close>

record ImageData =
  width :: nat
  height :: nat
  data :: "nat list"

definition wf_ImageData :: "ImageData \<Rightarrow> bool" where
  "wf_ImageData img \<longleftrightarrow>
     length (data img) = width img * height img * 4 \<and> (\<forall>v \<in> set (data img). v \<le> 255)"

section \<open>FloydSteinberg\<close>

type_synonym color = "rat \<times> rat \<times> rat"

definition EINK_PALETTE :: "color list" where
  "EINK_PALETTE =
     [(0, 0, 0), (255, 255, 255), (0, 255, 0), (0, 0, 255),
      (255, 0, 0), (255, 255, 0), (255, 128, 0)]"

fun colorDistance :: "color \<Rightarrow> color \<Rightarrow> rat" where
  "colorDistance (r1, g1, b1) (r2, g2, b2) =
     (let dr = r1 - r2; dg = g1 - g2; db = b1 - b2
      in dr * dr + dg * dg + db * db)"

text \<open>
  The body of \<open>for (const color of palette)\<close> in \<open>findNearestColor\<close>, on the pair
  \<open>(minDist, nearest)\<close>. \<open>nearest\<close> starts as \<open>palette[0]\<close>, which is \<open>undefined\<close>
  (\<open>None\<close>) for an empty palette.
\<close>

fun nearestLoop :: "color \<Rightarrow> color list \<Rightarrow> jsnum \<times> color option \<Rightarrow> jsnum \<times> color option" where
  "nearestLoop c [] st = st"
| "nearestLoop c (color # rest) (minDist, nearest) =
     (let dist = colorDistance c color
      in if js_lt (Fin dist) minDist
         then nearestLoop c rest (Fin dist, Some color)
         else nearestLoop c rest (minDist, nearest))"

definition findNearestColor :: "rat \<Rightarrow> rat \<Rightarrow> rat \<Rightarrow> color list \<Rightarrow> color option" where
  "findNearestColor r g b palette =
     snd (nearestLoop (r, g, b) palette
            (PInf, (case palette of [] \<Rightarrow> None | c0 # _ \<Rightarrow> Some c0)))"

text \<open>\<open>pixels[i] += v\<close> on the error buffer.\<close>

definition addAt :: "rat list \<Rightarrow> nat \<Rightarrow> rat \<Rightarrow> rat list" where
  "addAt pixels i v = pixels[i := pixels ! i + v]"

definition addErr :: "rat list \<Rightarrow> nat \<Rightarrow> rat \<Rightarrow> rat \<Rightarrow> rat \<Rightarrow> rat \<Rightarrow> rat list" where
  "addErr pixels i errR errG errB k =
     addAt (addAt (addAt pixels i (errR * k / 16)) (i + 1) (errG * k / 16)) (i + 2) (errB * k / 16)"

text \<open>The first loop of \<open>dither\<close>: copy the RGB channels into the error buffer.\<close>

definition copyRGB :: "nat list \<Rightarrow> nat \<Rightarrow> rat list \<Rightarrow> rat list" where
  "copyRGB dat i pixels =
     pixels[i * 3 := of_nat (dat ! (i * 4)),
            i * 3 + 1 := of_nat (dat ! (i * 4 + 1)),
            i * 3 + 2 := of_nat (dat ! (i * 4 + 2))]"

text \<open>
  The body of the two nested loops of \<open>dither\<close> at column \<open>x\<close> of row \<open>y\<close>, on the pair of
  the error buffer and the output bytes. Reading a component of an \<open>undefined\<close> colour
  throws a \<open>TypeError\<close>. The error buffer is a \<open>Float32Array\<close>; its values are kept
  exact here, as all finite numbers are.
\<close>

definition ditherPixel ::
  "color list \<Rightarrow> bool \<Rightarrow> nat \<Rightarrow> nat \<Rightarrow> nat \<Rightarrow> nat \<Rightarrow> rat list \<times> nat list
     \<Rightarrow> error + rat list \<times> nat list" where
  "ditherPixel palette dith w h y x st =
     (let pixels = fst st; dat = snd st;
          idx = (y * w + x) * 3;
          oldR = max 0 (min 255 (pixels ! idx));
          oldG = max 0 (min 255 (pixels ! (idx + 1)));
          oldB = max 0 (min 255 (pixels ! (idx + 2)))
      in case findNearestColor oldR oldG oldB palette of
           None \<Rightarrow> Inl TypeError
         | Some (newR, newG, newB) \<Rightarrow>
             (let outIdx = (y * w + x) * 4;
                  dat' = dat[outIdx := toUint8Clamped newR,
                             outIdx + 1 := toUint8Clamped newG,
                             outIdx + 2 := toUint8Clamped newB]
              in if dith
                 then
                   (let errR = oldR - newR; errG = oldG - newG; errB = oldB - newB;
                        p1 = (if x + 1 < w then addErr pixels (idx + 3) errR errG errB 7
                              else pixels);
                        p2 = (if 0 < x \<and> y + 1 < h
                              then addErr p1 (((y + 1) * w + (x - 1)) * 3) errR errG errB 3
                              else p1);
                        p3 = (if y + 1 < h
                              then addErr p2 (((y + 1) * w + x) * 3) errR errG errB 5
                              else p2);
                        p4 = (if x + 1 < w \<and> y + 1 < h
                              then addErr p3 (((y + 1) * w + (x + 1)) * 3) errR errG errB 1
                              else p3)
                    in Inr (p4, dat'))
                 else Inr (pixels, dat')))"

text \<open>
  \<open>dither(imageData, palette, dither)\<close>; the palette \<open>None\<close> is \<open>null\<close>, replaced by the
  e-ink palette. The image data is changed in place and returned.
\<close>

definition dither :: "ImageData \<Rightarrow> color list option \<Rightarrow> bool \<Rightarrow> error + ImageData" where
  "dither imageData palette dith =
     (let palette' = (case palette of None \<Rightarrow> EINK_PALETTE | Some p \<Rightarrow> p);
          w = width imageData; h = height imageData; dat = data imageData;
          pixels = forLoop 0 (w * h) (copyRGB dat) (replicate (w * h * 3) 0)
      in case forLoopE 0 h (\<lambda>y. forLoopE 0 w (\<lambda>x. ditherPixel palette' dith w h y x))
                (pixels, dat) of
           Inl e \<Rightarrow> Inl e
         | Inr st \<Rightarrow> Inr (imageData\<lparr>data := snd st\<rparr>))"

section \<open>BMPEncoder\<close>

text \<open>
  The file is a list of bytes. A \<open>DataView\<close> setter throws a \<open>RangeError\<close> when the field
  does not lie inside the buffer; it stores the value modulo the field's width, least
  significant byte first (every call in \<open>encode\<close> passes \<open>littleEndian = true\<close>).
\<close>

definition setUint8 :: "nat \<Rightarrow> nat \<Rightarrow> nat list \<Rightarrow> error + nat list" where
  "setUint8 off v buf =
     (if off + 1 \<le> length buf then Inr (buf[off := v mod 256]) else Inl RangeError)"

definition setUint16 :: "nat \<Rightarrow> nat \<Rightarrow> nat list \<Rightarrow> error + nat list" where
  "setUint16 off v buf =
     (if off + 2 \<le> length buf
      then Inr (buf[off := v mod 256, off + 1 := v div 256 mod 256])
      else Inl RangeError)"

definition setUint32 :: "nat \<Rightarrow> nat \<Rightarrow> nat list \<Rightarrow> error + nat list" where
  "setUint32 off v buf =
     (if off + 4 \<le> length buf
      then Inr (buf[off := v mod 256, off + 1 := v div 256 mod 256,
                    off + 2 := v div 65536 mod 256, off + 3 := v div 16777216 mod 256])
      else Inl RangeError)"

text \<open>
  \<open>setInt32\<close> stores the two's complement of its argument; the arguments here are never
  negative, so the bytes are those of \<open>setUint32\<close>.
\<close>

definition setInt32 :: "nat \<Rightarrow> nat \<Rightarrow> nat list \<Rightarrow> error + nat list" where
  "setInt32 off v buf = setUint32 off v buf"

fun writeAll :: "(nat list \<Rightarrow> error + nat list) list \<Rightarrow> nat list \<Rightarrow> error + nat list" where
  "writeAll [] buf = Inr buf"
| "writeAll (w # ws) buf = (case w buf of Inl e \<Rightarrow> Inl e | Inr buf' \<Rightarrow> writeAll ws buf')"

text \<open>
  Reading \<open>data[i]\<close> past the end gives \<open>undefined\<close>, which a \<open>Uint8Array\<close> stores as 0.
  \<open>pixels\<close> is the view of the buffer from byte 54 on: a store reduces the value modulo
  256, and a store past the end is ignored.
\<close>

definition dataAt :: "nat list \<Rightarrow> nat \<Rightarrow> nat" where
  "dataAt dat i = (if i < length dat then dat ! i else 0)"

definition pixelsStore :: "nat list \<Rightarrow> nat \<Rightarrow> nat \<Rightarrow> nat list" where
  "pixelsStore buf i v = buf[54 + i := v mod 256]"

definition rowSizeOf :: "nat \<Rightarrow> nat" where
  "rowSizeOf w = nat \<lceil>(of_nat (w * 3) :: rat) / 4\<rceil> * 4"

definition encodePixel :: "nat list \<Rightarrow> nat \<Rightarrow> nat \<Rightarrow> nat \<Rightarrow> nat \<Rightarrow> nat list \<Rightarrow> nat list" where
  "encodePixel dat w srcY rowOffset x buf =
     (let srcIdx = (srcY * w + x) * 4;
          dstIdx = rowOffset + x * 3;
          b1 = pixelsStore buf dstIdx (dataAt dat (srcIdx + 2));
          b2 = pixelsStore b1 (dstIdx + 1) (dataAt dat (srcIdx + 1))
      in pixelsStore b2 (dstIdx + 2) (dataAt dat srcIdx))"

definition encodeRow :: "nat list \<Rightarrow> nat \<Rightarrow> nat \<Rightarrow> nat \<Rightarrow> nat \<Rightarrow> nat list \<Rightarrow> nat list" where
  "encodeRow dat w h rowSize y buf =
     (let srcY = h - 1 - y;
          rowOffset = y * rowSize
      in forLoop 0 w (encodePixel dat w srcY rowOffset) buf)"

definition encode :: "ImageData \<Rightarrow> error + nat list" where
  "encode imageData =
     (let w = width imageData; h = height imageData; dat = data imageData;
          rowSize = rowSizeOf w;
          pixelArraySize = rowSize * h;
          fileSize = 54 + pixelArraySize;
          buffer = replicate fileSize 0
      in case writeAll
                [setUint8 0 0x42,
                 setUint8 1 0x4D,
                 setUint32 2 fileSize,
                 setUint16 6 0,
                 setUint16 8 0,
                 setUint32 10 54,
                 setUint32 14 40,
                 setInt32 18 w,
                 setInt32 22 h,
                 setUint16 26 1,
                 setUint16 28 24,
                 setUint32 30 0,
                 setUint32 34 pixelArraySize,
                 setInt32 38 2835,
                 setInt32 42 2835,
                 setUint32 46 0,
                 setUint32 50 0] buffer of
           Inl e \<Rightarrow> Inl e
         | Inr view \<Rightarrow> Inr (forLoop 0 h (encodeRow dat w h rowSize) view))"

text \<open>
  The layout of a 24-bit uncompressed bottom-up bitmap, written from its description and
  not from the encoder: the two headers, then the rows from the last to the first, each
  pixel as blue, green, red, each row filled with zero bytes up to the stride.
\<close>

definition le16 :: "nat \<Rightarrow> nat list" where
  "le16 v = [v mod 256, v div 256 mod 256]"

definition le32 :: "nat \<Rightarrow> nat list" where
  "le32 v = [v mod 256, v div 256 mod 256, v div 65536 mod 256, v div 16777216 mod 256]"

definition bmpStride :: "nat \<Rightarrow> nat" where
  "bmpStride w = (w * 3 + 3) div 4 * 4"

definition bmpFileHeader :: "nat \<Rightarrow> nat list" where
  "bmpFileHeader fileSize = [0x42, 0x4D] @ le32 fileSize @ le16 0 @ le16 0 @ le32 54"

definition bmpInfoHeader :: "nat \<Rightarrow> nat \<Rightarrow> nat \<Rightarrow> nat list" where
  "bmpInfoHeader w h imageSize =
     le32 40 @ le32 w @ le32 h @ le16 1 @ le16 24 @ le32 0 @ le32 imageSize
       @ le32 2835 @ le32 2835 @ le32 0 @ le32 0"

definition bmpPixel :: "ImageData \<Rightarrow> nat \<Rightarrow> nat \<Rightarrow> nat list" where
  "bmpPixel img y x =
     (let i = (y * width img + x) * 4
      in [data img ! (i + 2), data img ! (i + 1), data img ! i])"

definition bmpRow :: "ImageData \<Rightarrow> nat \<Rightarrow> nat list" where
  "bmpRow img y =
     concat (map (bmpPixel img y) [0..<width img])
       @ replicate (bmpStride (width img) - width img * 3) 0"

definition bmpLayout :: "ImageData \<Rightarrow> nat list" where
  "bmpLayout img =
     bmpFileHeader (54 + bmpStride (width img) * height img)
       @ bmpInfoHeader (width img) (height img) (bmpStride (width img) * height img)
       @ concat (map (bmpRow img) (rev [0..<height img]))"

section \<open>ImageConverter\<close>

text \<open>
  A loaded \<open>HTMLImageElement\<close> and a 2D canvas. What the browser does with a canvas is not
  code of the converter: the canvas is the list of drawing calls made on it, and
  \<open>getImageData\<close> is a parameter \<open>G\<close> of the functions that read pixels back.
\<close>

record Image =
  img_width :: nat
  img_height :: nat
  img_src :: "nat list"

datatype DrawCall =
    FillRect string jsnum jsnum jsnum jsnum
  | DrawImage Image jsnum jsnum jsnum jsnum

record Canvas =
  canvas_width :: nat
  canvas_height :: nat
  calls :: "DrawCall list"

type_synonym target = "nat \<times> nat"

definition LANDSCAPE :: target where
  "LANDSCAPE = (800, 480)"

definition PORTRAIT :: target where
  "PORTRAIT = (480, 800)"

definition getTargetDimensions :: "nat \<Rightarrow> nat \<Rightarrow> target" where
  "getTargetDimensions w h = (if w > h then LANDSCAPE else PORTRAIT)"

text \<open>The canvas of \<open>resizeScale\<close> before its pixels are read back.\<close>

definition resizeScaleCanvas :: "Image \<Rightarrow> target \<Rightarrow> Canvas" where
  "resizeScaleCanvas img target =
     (let tw = js_nat (fst target); th = js_nat (snd target);
          iw = js_nat (img_width img); ih = js_nat (img_height img);
          canvas = \<lparr>canvas_width = fst target, canvas_height = snd target, calls = []\<rparr>;
          canvas1 = canvas\<lparr>calls := calls canvas @ [FillRect ''#FFFFFF'' (Fin 0) (Fin 0) tw th]\<rparr>;
          scaleRatio = js_max (js_div tw iw) (js_div th ih);
          resizedWidth = js_round (js_mul iw scaleRatio);
          resizedHeight = js_round (js_mul ih scaleRatio);
          left = js_floor (js_div (js_sub tw resizedWidth) (Fin 2));
          top = js_floor (js_div (js_sub th resizedHeight) (Fin 2))
      in canvas1\<lparr>calls := calls canvas1 @ [DrawImage img left top resizedWidth resizedHeight]\<rparr>)"

definition resizeScale ::
  "(Canvas \<Rightarrow> nat \<Rightarrow> nat \<Rightarrow> nat \<Rightarrow> nat \<Rightarrow> ImageData) \<Rightarrow> Image \<Rightarrow> target \<Rightarrow> ImageData" where
  "resizeScale G img target = G (resizeScaleCanvas img target) 0 0 (fst target) (snd target)"

text \<open>The canvas of \<open>resizeCut\<close> before its pixels are read back.\<close>

definition resizeCutCanvas :: "Image \<Rightarrow> target \<Rightarrow> Canvas" where
  "resizeCutCanvas img target =
     (let tw = js_nat (fst target); th = js_nat (snd target);
          iw = js_nat (img_width img); ih = js_nat (img_height img);
          canvas = \<lparr>canvas_width = fst target, canvas_height = snd target, calls = []\<rparr>;
          canvas1 = canvas\<lparr>calls := calls canvas @ [FillRect ''#FFFFFF'' (Fin 0) (Fin 0) tw th]\<rparr>;
          scaleRatio = js_max (js_div tw iw) (js_div th ih);
          resizedWidth = js_round (js_mul iw scaleRatio);
          resizedHeight = js_round (js_mul ih scaleRatio);
          left = js_floor (js_div (js_sub tw resizedWidth) (Fin 2));
          top = js_floor (js_div (js_sub th resizedHeight) (Fin 2))
      in canvas1\<lparr>calls := calls canvas1 @ [DrawImage img left top resizedWidth resizedHeight]\<rparr>)"

definition resizeCut ::
  "(Canvas \<Rightarrow> nat \<Rightarrow> nat \<Rightarrow> nat \<Rightarrow> nat \<Rightarrow> ImageData) \<Rightarrow> Image \<Rightarrow> target \<Rightarrow> ImageData" where
  "resizeCut G img target = G (resizeCutCanvas img target) 0 0 (fst target) (snd target)"

text \<open>
  A crop rectangle in source pixels, and the options object that the page passes to
  \<open>convert\<close>; a field that is absent is \<open>None\<close>.
\<close>

record Crop =
  crop_x :: jsnum
  crop_y :: jsnum
  crop_width :: jsnum
  crop_height :: jsnum

record Options =
  opt_mode :: "string option"
  opt_dither :: "bool option"
  opt_orientation :: "string option"
  opt_crop :: "Crop option"

record Result =
  res_imageData :: ImageData
  res_blob :: "nat list"
  res_width :: nat
  res_height :: nat
  res_orientation :: string

text \<open>
  \<open>convert\<close>, from the loaded image on (loading the file and the PNG preview are the
  browser's). \<open>convertFit\<close> is its first half, the choice of the target and of the
  resize function.
\<close>

definition convertTarget :: "Image \<Rightarrow> Options \<Rightarrow> target" where
  "convertTarget img options =
     (let orientation = (case opt_orientation options of
                           None \<Rightarrow> ''auto'' | Some s \<Rightarrow> if s = [] then ''auto'' else s)
      in if orientation = ''landscape'' then LANDSCAPE
         else if orientation = ''portrait'' then PORTRAIT
         else getTargetDimensions (img_width img) (img_height img))"

definition convertFit ::
  "(Canvas \<Rightarrow> nat \<Rightarrow> nat \<Rightarrow> nat \<Rightarrow> nat \<Rightarrow> ImageData) \<Rightarrow> Image \<Rightarrow> Options \<Rightarrow> ImageData" where
  "convertFit G img options =
     (let mode = (case opt_mode options of
                    None \<Rightarrow> ''scale'' | Some s \<Rightarrow> if s = [] then ''scale'' else s);
          target = convertTarget img options
      in if mode = ''cut'' then resizeCut G img target else resizeScale G img target)"

definition convert ::
  "(Canvas \<Rightarrow> nat \<Rightarrow> nat \<Rightarrow> nat \<Rightarrow> nat \<Rightarrow> ImageData) \<Rightarrow> Image \<Rightarrow> Options \<Rightarrow> error + Result" where
  "convert G img options =
     (let dith = (opt_dither options \<noteq> Some False);
          target = convertTarget img options;
          imageData = convertFit G img options
      in case dither imageData None dith of
           Inl e \<Rightarrow> Inl e
         | Inr ditheredData \<Rightarrow>
             (case encode ditheredData of
                Inl e \<Rightarrow> Inl e
              | Inr blob \<Rightarrow>
                  Inr \<lparr>res_imageData = ditheredData, res_blob = blob,
                       res_width = fst target, res_height = snd target,
                       res_orientation =
                         (if fst target > snd target then ''landscape'' else ''portrait'')\<rparr>))"

text \<open>
  What the interactive-crop sentence of the specification asks of the canvas: the crop
  rectangle of the source drawn onto the whole target.
\<close>

datatype Sampling = Sampling jsnum jsnum jsnum jsnum jsnum jsnum jsnum jsnum

text \<open>
  The source rectangle and the destination rectangle of a drawing call:
  \<open>drawImage(img, dx, dy, dw, dh)\<close> takes the whole image as its source.
\<close>

fun samplingOf :: "DrawCall \<Rightarrow> Sampling option" where
  "samplingOf (DrawImage img dx dy dw dh) =
     Some (Sampling (Fin 0) (Fin 0) (js_nat (img_width img)) (js_nat (img_height img)) dx dy dw dh)"
| "samplingOf (FillRect _ _ _ _ _) = None"

definition cropSampling :: "Crop \<Rightarrow> target \<Rightarrow> Sampling" where
  "cropSampling c target =
     Sampling (crop_x c) (crop_y c) (crop_width c) (crop_height c)
       (Fin 0) (Fin 0) (js_nat (fst target)) (js_nat (snd target))"

section \<open>The crop editor\<close>




section \<open>Notions used in the statements and proofs\<close>

text \<open>
  The state of the search in \<open>findNearestColor\<close> after the entries \<open>pre\<close> of the palette:
  nothing seen yet, or the first entry of \<open>pre\<close> at the least distance from \<open>c\<close>.
\<close>

definition nearestInv :: "color \<Rightarrow> color list \<Rightarrow> jsnum \<times> color option \<Rightarrow> bool" where
  "nearestInv c pre st \<longleftrightarrow>
     (pre = [] \<and> fst st = PInf) \<or>
     (\<exists>k<length pre. snd st = Some (pre ! k) \<and> fst st = Fin (colorDistance c (pre ! k)) \<and>
        (\<forall>j<length pre. colorDistance c (pre ! k) \<le> colorDistance c (pre ! j)) \<and>
        (\<forall>j<k. colorDistance c (pre ! k) < colorDistance c (pre ! j)))"

text \<open>The colour of the pixel in column \<open>x\<close> of row \<open>y\<close>.\<close>

definition rgbAt :: "ImageData \<Rightarrow> nat \<Rightarrow> nat \<Rightarrow> color" where
  "rgbAt img x y =
     (let i = (y * width img + x) * 4
      in (of_nat (data img ! i), of_nat (data img ! (i + 1)), of_nat (data img ! (i + 2))))"

text \<open>
  The loop invariant of \<open>dither\<close> for the output: the first \<open>p\<close> pixels, in row-major
  order, hold palette colours.
\<close>

definition paletteUpTo :: "nat \<Rightarrow> nat \<Rightarrow> rat list \<times> nat list \<Rightarrow> bool" where
  "paletteUpTo n p st \<longleftrightarrow>
     length (snd st) = n * 4 \<and>
     (\<forall>i<p. (rat_of_nat (snd st ! (i * 4)), rat_of_nat (snd st ! (i * 4 + 1)),
              rat_of_nat (snd st ! (i * 4 + 2))) \<in> set EINK_PALETTE)"

text \<open>
  Nearest-colour mapping pixel by pixel, with no error buffer: the four bytes of pixel
  \<open>i\<close> after its colour was replaced by the nearest palette entry.
\<close>

definition quantPixel :: "nat list \<Rightarrow> nat \<Rightarrow> nat list" where
  "quantPixel dat i =
     (case findNearestColor (of_nat (dat ! (i * 4))) (of_nat (dat ! (i * 4 + 1)))
             (of_nat (dat ! (i * 4 + 2))) EINK_PALETTE of
        None \<Rightarrow> []
      | Some (r, g, b) \<Rightarrow>
          [toUint8Clamped r, toUint8Clamped g, toUint8Clamped b, dat ! (i * 4 + 3)])"

definition nearestColorMap :: "ImageData \<Rightarrow> ImageData" where
  "nearestColorMap img =
     img\<lparr>data := concat (map (quantPixel (data img)) [0..<width img * height img])\<rparr>"

text \<open>The error buffer after the first \<open>k\<close> pixels were copied into it.\<close>

definition copied :: "nat list \<Rightarrow> nat \<Rightarrow> nat \<Rightarrow> rat list \<Rightarrow> bool" where
  "copied dat n k px \<longleftrightarrow>
     length px = n * 3 \<and>
     (\<forall>i<k. px ! (i * 3) = of_nat (dat ! (i * 4)) \<and>
            px ! (i * 3 + 1) = of_nat (dat ! (i * 4 + 1)) \<and>
            px ! (i * 3 + 2) = of_nat (dat ! (i * 4 + 2)))"

text \<open>
  The loop invariant of \<open>dither\<close> without dithering: the error buffer is still the copy of
  the input, the first \<open>p\<close> pixels are mapped and the others are as they were.
\<close>

definition mappedUpTo :: "rat list \<Rightarrow> nat list \<Rightarrow> nat \<Rightarrow> nat \<Rightarrow> rat list \<times> nat list \<Rightarrow> bool" where
  "mappedUpTo px0 dat0 n p st \<longleftrightarrow>
     fst st = px0 \<and> length (snd st) = n * 4 \<and>
     (\<forall>i<n. if i < p
            then snd st ! (i * 4) = quantPixel dat0 i ! 0 \<and>
                 snd st ! (i * 4 + 1) = quantPixel dat0 i ! 1 \<and>
                 snd st ! (i * 4 + 2) = quantPixel dat0 i ! 2 \<and>
                 snd st ! (i * 4 + 3) = quantPixel dat0 i ! 3
            else snd st ! (i * 4) = dat0 ! (i * 4) \<and>
                 snd st ! (i * 4 + 1) = dat0 ! (i * 4 + 1) \<and>
                 snd st ! (i * 4 + 2) = dat0 ! (i * 4 + 2) \<and>
                 snd st ! (i * 4 + 3) = dat0 ! (i * 4 + 3))"

text \<open>The colour that nearest-colour mapping puts in the place of the colour \<open>c\<close>.\<close>

definition quantColor :: "color \<Rightarrow> color" where
  "quantColor c =
     (case findNearestColor (fst c) (fst (snd c)) (snd (snd c)) EINK_PALETTE of
        None \<Rightarrow> c
      | Some (r, g, b) \<Rightarrow>
          (of_nat (toUint8Clamped r), of_nat (toUint8Clamped g), of_nat (toUint8Clamped b)))"

text \<open>
  The bytes of the pixel in column \<open>x\<close> of row \<open>srcY\<close> as the encoder stores them, and the
  row of the file they make up, filled with zero bytes up to \<open>rowSize\<close>.
\<close>

definition bgrAt :: "nat list \<Rightarrow> nat \<Rightarrow> nat \<Rightarrow> nat \<Rightarrow> nat list" where
  "bgrAt dat w srcY x =
     [dat ! ((srcY * w + x) * 4 + 2), dat ! ((srcY * w + x) * 4 + 1), dat ! ((srcY * w + x) * 4)]"

definition fileRow :: "nat list \<Rightarrow> nat \<Rightarrow> nat \<Rightarrow> nat \<Rightarrow> nat list" where
  "fileRow dat w rowSize srcY =
     concat (map (bgrAt dat w srcY) [0..<w]) @ replicate (rowSize - w * 3) 0"

subsection \<open>Sample inputs\<close>

text \<open>
  Concrete rasters, images, crop rectangles and drag states at which the properties
  below are evaluated.
\<close>

definition gray2 :: ImageData where
  "gray2 = \<lparr>width = 2, height = 1, data = [128, 128, 128, 255, 128, 128, 128, 255]\<rparr>"

definition pixel1 :: ImageData where
  "pixel1 = \<lparr>width = 1, height = 1, data = [100, 150, 200, 255]\<rparr>"

definition red4 :: ImageData where
  "red4 = \<lparr>width = 2, height = 2,
            data = [255, 0, 0, 255, 255, 0, 0, 255, 255, 0, 0, 255, 255, 0, 0, 255]\<rparr>"

definition square1000 :: Image where
  "square1000 = \<lparr>img_width = 1000, img_height = 1000, img_src = []\<rparr>"

definition topCrop :: Crop where
  "topCrop = \<lparr>crop_x = Fin 0, crop_y = Fin 0, crop_width = Fin 1000, crop_height = Fin 600\<rparr>"

definition photo4000 :: Image where
  "photo4000 = \<lparr>img_width = 4000, img_height = 3000, img_src = []\<rparr>"



definition raster2x2 :: ImageData where
  "raster2x2 = \<lparr>width = 2, height = 2,
     data = [255, 255, 255, 255, 0, 0, 0, 255, 255, 0, 0, 255, 0, 0, 255, 255]\<rparr>"



section \<open>Nearest colour\<close>

lemma nearestInv_step:
  assumes "nearestInv c pre (m, n)"
  shows "nearestInv c (pre @ [color])
           (if js_lt (Fin (colorDistance c color)) m
            then (Fin (colorDistance c color), Some color) else (m, n))"
proof (cases "pre = []")
  case True
  with assms have "m = PInf" by (auto simp: nearestInv_def)
  with True show ?thesis by (simp add: nearestInv_def)
next
  case False
  with assms obtain k where k: "k < length pre" "n = Some (pre ! k)"
    "m = Fin (colorDistance c (pre ! k))"
    "\<forall>j<length pre. colorDistance c (pre ! k) \<le> colorDistance c (pre ! j)"
    "\<forall>j<k. colorDistance c (pre ! k) < colorDistance c (pre ! j)"
    by (auto simp: nearestInv_def)
  show ?thesis
  proof (cases "colorDistance c color < colorDistance c (pre ! k)")
    case True
    have "\<forall>j<length (pre @ [color]). colorDistance c color \<le> colorDistance c ((pre @ [color]) ! j)"
      using True k(4) by (auto simp: nth_append less_Suc_eq intro: order.trans less_imp_le)
    moreover have "\<forall>j<length pre. colorDistance c color < colorDistance c ((pre @ [color]) ! j)"
      using True k(4) by (auto simp: nth_append intro: less_le_trans)
    ultimately show ?thesis using True k(3)
      unfolding nearestInv_def
      by (intro disjI2 exI[of _ "length pre"]) (simp add: nth_append)
  next
    case False
    have "\<forall>j<length (pre @ [color]).
            colorDistance c (pre ! k) \<le> colorDistance c ((pre @ [color]) ! j)"
      using False k(4) by (auto simp: nth_append less_Suc_eq)
    then show ?thesis using False k
      unfolding nearestInv_def
      by (intro disjI2 exI[of _ k]) (simp add: nth_append)
  qed
qed

lemma nearestLoop_inv:
  "nearestInv c pre st \<Longrightarrow> nearestInv c (pre @ rest) (nearestLoop c rest st)"
proof (induction rest arbitrary: pre st)
  case Nil
  then show ?case by simp
next
  case (Cons color rest)
  obtain m n where st: "st = (m, n)" by (cases st)
  from Cons.prems have "nearestInv c (pre @ [color])
           (if js_lt (Fin (colorDistance c color)) m
            then (Fin (colorDistance c color), Some color) else (m, n))"
    unfolding st by (rule nearestInv_step)
  from Cons.IH[OF this] show ?case by (simp add: st Let_def split: if_splits)
qed

lemma findNearestColor_first_min:
  assumes "palette \<noteq> []"
  shows "\<exists>k<length palette. findNearestColor r g b palette = Some (palette ! k) \<and>
        (\<forall>j<length palette.
           colorDistance (r, g, b) (palette ! k) \<le> colorDistance (r, g, b) (palette ! j)) \<and>
        (\<forall>j<k. colorDistance (r, g, b) (palette ! k) < colorDistance (r, g, b) (palette ! j))"
proof -
  have "nearestInv (r, g, b) [] (PInf, (case palette of [] \<Rightarrow> None | c0 # _ \<Rightarrow> Some c0))"
    by (simp add: nearestInv_def)
  from nearestLoop_inv[OF this, of palette] assms show ?thesis
    by (auto simp: nearestInv_def findNearestColor_def)
qed



section \<open>Loops\<close>

lemma forLoop_inv:
  assumes "P i s" and "i \<le> n"
    and "\<And>j t. i \<le> j \<Longrightarrow> j < n \<Longrightarrow> P j t \<Longrightarrow> P (Suc j) (body j t)"
  shows "P n (forLoop i n body s)"
  using assms
proof (induction i n body s rule: forLoop.induct)
  case (1 i n body s)
  show ?case
  proof (cases "i < n")
    case True
    have "P (Suc i) (body i s)" using "1.prems" True by simp
    moreover have "\<And>j t. Suc i \<le> j \<Longrightarrow> j < n \<Longrightarrow> P j t \<Longrightarrow> P (Suc j) (body j t)"
      using "1.prems"(3) by simp
    ultimately have "P n (forLoop (i + 1) n body (body i s))"
      using "1.IH"[OF True] True by simp
    then show ?thesis using True by (subst forLoop.simps) simp
  next
    case False
    with "1.prems" have "i = n" by simp
    then show ?thesis using "1.prems"(1) by (subst forLoop.simps) simp
  qed
qed

lemma forLoopE_inv:
  assumes "P i s" and "i \<le> n"
    and "\<And>j t. i \<le> j \<Longrightarrow> j < n \<Longrightarrow> P j t \<Longrightarrow> \<exists>t'. body j t = Inr t' \<and> P (Suc j) t'"
  shows "\<exists>s'. forLoopE i n body s = Inr s' \<and> P n s'"
  using assms
proof (induction i n body s rule: forLoopE.induct)
  case (1 i n body s)
  show ?case
  proof (cases "i < n")
    case True
    from "1.prems" True obtain t' where t': "body i s = Inr t'" "P (Suc i) t'" by blast
    have "\<And>j t. Suc i \<le> j \<Longrightarrow> j < n \<Longrightarrow> P j t \<Longrightarrow> \<exists>t'. body j t = Inr t' \<and> P (Suc j) t'"
      using "1.prems"(3) by simp
    with "1.IH"[OF True t'(1)] t'(2) True
    have "\<exists>s'. forLoopE (i + 1) n body t' = Inr s' \<and> P n s'" by simp
    then show ?thesis using True t'(1) by (subst forLoopE.simps) simp
  next
    case False
    with "1.prems" have "i = n" by simp
    then show ?thesis using "1.prems"(1) by (subst forLoopE.simps) simp
  qed
qed

lemma nested_inv:
  assumes "Q 0 s"
    and step: "\<And>y x t. y < h \<Longrightarrow> x < w \<Longrightarrow> Q (y * w + x) t
                 \<Longrightarrow> \<exists>t'. body y x t = Inr t' \<and> Q (Suc (y * w + x)) t'"
  shows "\<exists>s'. forLoopE 0 h (\<lambda>y. forLoopE 0 w (body y)) s = Inr s' \<and> Q (h * w) s'"
proof (rule forLoopE_inv[where P = "\<lambda>y t. Q (y * w) t"])
  show "Q (0 * w) s" using assms(1) by simp
  show "0 \<le> h" by simp
  fix y t assume y: "y < h" and q: "Q (y * w) t"
  have "\<exists>t'. forLoopE 0 w (body y) t = Inr t' \<and> Q (y * w + w) t'"
  proof (rule forLoopE_inv[where P = "\<lambda>x t. Q (y * w + x) t"])
    show "Q (y * w + 0) t" using q by simp
    show "0 \<le> w" by simp
    fix x t assume "x < w" "Q (y * w + x) t"
    from step[OF y this] show "\<exists>t'. body y x t = Inr t' \<and> Q (y * w + Suc x) t'" by simp
  qed
  then show "\<exists>t'. forLoopE 0 w (body y) t = Inr t' \<and> Q (Suc y * w) t'"
    by (simp add: add.commute)
qed

section \<open>The raster of two grey pixels\<close>

lemma gray2_wf: "wf_ImageData gray2"
  by (simp add: wf_ImageData_def gray2_def)

lemma gray2_dithered:
  "dither gray2 None True
     = Inr \<lparr>width = 2, height = 1, data = [255, 128, 0, 255, 0, 0, 255, 255]\<rparr>"
  by code_simp

lemma gray2_mapped:
  "dither gray2 None False
     = Inr \<lparr>width = 2, height = 1, data = [255, 128, 0, 255, 255, 128, 0, 255]\<rparr>"
  by code_simp

section \<open>Every output pixel is a palette colour\<close>

lemma findNearestColor_in_palette:
  assumes "palette \<noteq> []"
  shows "\<exists>c \<in> set palette. findNearestColor r g b palette = Some c"
  using findNearestColor_first_min[OF assms, of r g b] by (auto intro: nth_mem)

lemma toUint8Clamped_palette:
  assumes "(r, g, b) \<in> set EINK_PALETTE"
  shows "rat_of_nat (toUint8Clamped r) = r" and "rat_of_nat (toUint8Clamped g) = g"
    and "rat_of_nat (toUint8Clamped b) = b"
  using assms by (auto simp: EINK_PALETTE_def toUint8Clamped_def roundHalfEven_def)


lemma pixel_index_less:
  fixes x y w h :: nat
  assumes "y < h" and "x < w"
  shows "y * w + x < w * h"
proof -
  have "y * w + x < Suc y * w" using assms(2) by simp
  also have "Suc y * w \<le> h * w" using assms(1) by (intro mult_le_mono1) simp
  finally show ?thesis by (simp add: mult.commute)
qed

lemma ditherPixel_Some:
  assumes "findNearestColor (max 0 (min 255 (px ! ((y * w + x) * 3))))
             (max 0 (min 255 (px ! ((y * w + x) * 3 + 1))))
             (max 0 (min 255 (px ! ((y * w + x) * 3 + 2)))) palette = Some (nr, ng, nb)"
  shows "\<exists>px'. ditherPixel palette dith w h y x (px, dat) =
           Inr (px', dat[(y * w + x) * 4 := toUint8Clamped nr,
                         (y * w + x) * 4 + 1 := toUint8Clamped ng,
                         (y * w + x) * 4 + 2 := toUint8Clamped nb]) \<and>
           (\<not> dith \<longrightarrow> px' = px)"
  using assms by (simp add: ditherPixel_def Let_def)

lemma ditherPixel_paletteUpTo:
  assumes "y < h" and "x < w" and "paletteUpTo (w * h) (y * w + x) st"
  shows "\<exists>st'. ditherPixel EINK_PALETTE dith w h y x st = Inr st' \<and>
           paletteUpTo (w * h) (Suc (y * w + x)) st'"
proof -
  obtain px dat where st: "st = (px, dat)" by (cases st)
  define p where "p = y * w + x"
  have p: "p < w * h" unfolding p_def using assms(1,2) by (rule pixel_index_less)
  have ne: "EINK_PALETTE \<noteq> []" by (simp add: EINK_PALETTE_def)
  from findNearestColor_in_palette[OF ne] obtain nr ng nb where
    c: "(nr, ng, nb) \<in> set EINK_PALETTE"
    "findNearestColor (max 0 (min 255 (px ! (p * 3)))) (max 0 (min 255 (px ! (p * 3 + 1))))
             (max 0 (min 255 (px ! (p * 3 + 2)))) EINK_PALETTE = Some (nr, ng, nb)"
    by (metis prod_cases3)
  from ditherPixel_Some[OF c(2)[unfolded p_def], of dith h dat] obtain px' where
    r: "ditherPixel EINK_PALETTE dith w h y x (px, dat) =
           Inr (px', dat[p * 4 := toUint8Clamped nr, p * 4 + 1 := toUint8Clamped ng,
                         p * 4 + 2 := toUint8Clamped nb])"
    unfolding p_def by blast
  from assms(3) have len: "length dat = w * h * 4"
    and old: "\<forall>i<p. (rat_of_nat (dat ! (i * 4)), rat_of_nat (dat ! (i * 4 + 1)),
              rat_of_nat (dat ! (i * 4 + 2))) \<in> set EINK_PALETTE"
    by (simp_all add: paletteUpTo_def st p_def)
  let ?dat' = "dat[p * 4 := toUint8Clamped nr, p * 4 + 1 := toUint8Clamped ng,
                         p * 4 + 2 := toUint8Clamped nb]"
  have new: "(rat_of_nat (?dat' ! (i * 4)), rat_of_nat (?dat' ! (i * 4 + 1)),
              rat_of_nat (?dat' ! (i * 4 + 2))) \<in> set EINK_PALETTE" if "i < Suc p" for i
  proof (cases "i = p")
    case True
    have "p * 4 + 2 < length dat" using p len by simp
    then show ?thesis using True c(1) toUint8Clamped_palette[OF c(1)] by simp
  next
    case False
    with that have "i < p" by simp
    then have "?dat' ! (i * 4) = dat ! (i * 4)" "?dat' ! (i * 4 + 1) = dat ! (i * 4 + 1)"
      "?dat' ! (i * 4 + 2) = dat ! (i * 4 + 2)" by simp_all
    with old \<open>i < p\<close> show ?thesis by simp
  qed
  show ?thesis using r new len unfolding st paletteUpTo_def p_def by simp
qed

lemma dither_paletteUpTo:
  assumes "length (data img) = width img * height img * 4"
  shows "\<exists>st. forLoopE 0 (height img)
               (\<lambda>y. forLoopE 0 (width img)
                  (\<lambda>x. ditherPixel EINK_PALETTE dith (width img) (height img) y x)) (px, data img)
             = Inr st \<and> paletteUpTo (width img * height img) (height img * width img) st"
proof (rule nested_inv[where Q = "paletteUpTo (width img * height img)"])
  show "paletteUpTo (width img * height img) 0 (px, data img)"
    using assms by (simp add: paletteUpTo_def)
next
  fix y x t
  assume "y < height img" "x < width img" "paletteUpTo (width img * height img) (y * width img + x) t"
  then show "\<exists>t'. ditherPixel EINK_PALETTE dith (width img) (height img) y x t = Inr t' \<and>
                paletteUpTo (width img * height img) (Suc (y * width img + x)) t'"
    by (rule ditherPixel_paletteUpTo)
qed

text \<open>
  Claim C1. For every raster (with the four bytes per pixel that an \<open>ImageData\<close> has),
  with the palette left at the e-ink palette and with dithering on or off, \<open>dither\<close>
  returns a raster of the same size, and the red, green and blue bytes of each of its
  pixels are one of the seven palette entries.
\<close>

theorem dither_output_in_palette:
  assumes "wf_ImageData img"
  shows "\<exists>out. dither img None dith = Inr out \<and>
           width out = width img \<and> height out = height img \<and>
           length (data out) = length (data img) \<and>
           (\<forall>y<height img. \<forall>x<width img.
              rgbAt out x y \<in> {(0, 0, 0), (255, 255, 255), (0, 255, 0), (0, 0, 255),
                               (255, 0, 0), (255, 255, 0), (255, 128, 0)})"
proof -
  from assms have len: "length (data img) = width img * height img * 4"
    by (simp add: wf_ImageData_def)
  let ?px = "forLoop 0 (width img * height img) (copyRGB (data img))
               (replicate (width img * height img * 3) 0)"
  from dither_paletteUpTo[OF len, of dith ?px] obtain st where
    st: "forLoopE 0 (height img)
               (\<lambda>y. forLoopE 0 (width img)
                  (\<lambda>x. ditherPixel EINK_PALETTE dith (width img) (height img) y x)) (?px, data img)
             = Inr st" "paletteUpTo (width img * height img) (height img * width img) st"
    by blast
  have d: "dither img None dith = Inr (img\<lparr>data := snd st\<rparr>)"
    using st(1) by (simp add: dither_def Let_def)
  have "rgbAt (img\<lparr>data := snd st\<rparr>) x y \<in> set EINK_PALETTE"
    if "y < height img" "x < width img" for x y
  proof -
    from that have "y * width img + x < height img * width img"
      using pixel_index_less[of y "height img" x "width img"] by (simp add: mult.commute)
    with st(2) have "(rat_of_nat (snd st ! ((y * width img + x) * 4)),
        rat_of_nat (snd st ! ((y * width img + x) * 4 + 1)),
        rat_of_nat (snd st ! ((y * width img + x) * 4 + 2))) \<in> set EINK_PALETTE"
      unfolding paletteUpTo_def by blast
    then show ?thesis by (simp add: rgbAt_def Let_def)
  qed
  then have "\<forall>y<height img. \<forall>x<width img. rgbAt (img\<lparr>data := snd st\<rparr>) x y \<in>
      {(0, 0, 0), (255, 255, 255), (0, 255, 0), (0, 0, 255),
                               (255, 0, 0), (255, 255, 0), (255, 128, 0)}"
    by (simp add: EINK_PALETTE_def)
  moreover have "length (snd st) = length (data img)"
    using st(2) len by (simp add: paletteUpTo_def)
  ultimately show ?thesis using d by simp
qed

theorem dither_output_in_palette_witness:
  "wf_ImageData gray2 \<and>
   (\<exists>out. dither gray2 None True = Inr out \<and> width out = 2 \<and> height out = 1 \<and>
      rgbAt out 0 0 = (255, 128, 0) \<and> rgbAt out 1 0 = (0, 0, 255))"
proof -
  from dither_output_in_palette[OF gray2_wf, of True]
  obtain out where "dither gray2 None True = Inr out" "width out = width gray2"
    "height out = height gray2" by blast
  then show ?thesis using gray2_wf
    by (simp add: gray2_dithered) (auto simp: gray2_def rgbAt_def)
qed

section \<open>Without dithering: a map over the pixels\<close>

lemma copyRGB_copied:
  assumes "k < n" and "copied dat n k px"
  shows "copied dat n (Suc k) (copyRGB dat k px)"
proof -
  from assms have len: "length px = n * 3" by (simp add: copied_def)
  have k: "k * 3 + 2 < length px" using assms(1) len by simp
  have old: "px ! (i * 3) = of_nat (dat ! (i * 4)) \<and>
            px ! (i * 3 + 1) = of_nat (dat ! (i * 4 + 1)) \<and>
            px ! (i * 3 + 2) = of_nat (dat ! (i * 4 + 2))" if "i < k" for i
    using assms(2) that by (simp add: copied_def)
  let ?px = "copyRGB dat k px"
  have new: "?px ! (i * 3) = of_nat (dat ! (i * 4)) \<and>
            ?px ! (i * 3 + 1) = of_nat (dat ! (i * 4 + 1)) \<and>
            ?px ! (i * 3 + 2) = of_nat (dat ! (i * 4 + 2))" if "i < Suc k" for i
  proof (cases "i = k")
    case True
    then show ?thesis using k by (simp add: copyRGB_def)
  next
    case False
    with that have "i < k" by simp
    then show ?thesis using old[OF \<open>i < k\<close>] by (simp add: copyRGB_def)
  qed
  show ?thesis unfolding copied_def using new len by (simp add: copyRGB_def)
qed

lemma copy_loop_copied:
  "copied dat n n (forLoop 0 n (copyRGB dat) (replicate (n * 3) 0))"
proof (rule forLoop_inv[where P = "copied dat n"])
  show "copied dat n 0 (replicate (n * 3) 0)" by (simp add: copied_def)
  show "0 \<le> n" by simp
  fix j t assume "j < n" "copied dat n j t"
  then show "copied dat n (Suc j) (copyRGB dat j t)" by (rule copyRGB_copied)
qed

lemma clamp_byte: "v \<le> 255 \<Longrightarrow> max 0 (min 255 (rat_of_nat v)) = rat_of_nat v"
proof -
  assume "v \<le> 255"
  then have "rat_of_nat v \<le> rat_of_nat 255" by (rule of_nat_mono)
  then show ?thesis by simp
qed

lemma quantPixel_length: "length (quantPixel dat i) = 4"
proof -
  have "EINK_PALETTE \<noteq> []" by (simp add: EINK_PALETTE_def)
  from findNearestColor_in_palette[OF this]
  obtain c where "findNearestColor (of_nat (dat ! (i * 4))) (of_nat (dat ! (i * 4 + 1)))
             (of_nat (dat ! (i * 4 + 2))) EINK_PALETTE = Some c" by blast
  then show ?thesis by (cases c) (simp add: quantPixel_def)
qed


lemma concat_blocks:
  assumes "\<And>i. length (f i) = 4"
  shows "length (concat (map f [0..<n])) = n * 4 \<and>
         (\<forall>i<n. \<forall>c<4. concat (map f [0..<n]) ! (i * 4 + c) = f i ! c)"
proof (induction n)
  case 0
  show ?case by simp
next
  case (Suc n)
  then have len: "length (concat (map f [0..<n])) = n * 4"
    and nth: "\<And>i c. i < n \<Longrightarrow> c < 4 \<Longrightarrow> concat (map f [0..<n]) ! (i * 4 + c) = f i ! c"
    by simp_all
  have "concat (map f [0..<Suc n]) ! (i * 4 + c) = f i ! c" if "i < Suc n" "c < 4" for i c
  proof (cases "i = n")
    case True
    then show ?thesis using len by (simp add: nth_append)
  next
    case False
    with that have i: "i < n" by simp
    then have "i * 4 + c < n * 4" using that(2) by simp
    then show ?thesis using len nth[OF i that(2)] by (simp add: nth_append)
  qed
  then show ?case using len assms by simp
qed

lemma ditherPixel_mappedUpTo:
  assumes len: "length dat0 = w * h * 4" and bytes: "\<forall>v \<in> set dat0. v \<le> 255"
    and y: "y < h" and x: "x < w"
    and cp: "copied dat0 (w * h) (w * h) px0"
    and inv: "mappedUpTo px0 dat0 (w * h) (y * w + x) st"
  shows "\<exists>st'. ditherPixel EINK_PALETTE False w h y x st = Inr st' \<and>
           mappedUpTo px0 dat0 (w * h) (Suc (y * w + x)) st'"
proof -
  define p where "p = y * w + x"
  have p: "p < w * h" unfolding p_def using y x by (rule pixel_index_less)
  obtain px dat where st: "st = (px, dat)" by (cases st)
  from inv have px: "px = px0" and dlen: "length dat = w * h * 4"
    by (simp_all add: mappedUpTo_def st)
  have b: "dat0 ! (p * 4) \<le> 255" "dat0 ! (p * 4 + 1) \<le> 255" "dat0 ! (p * 4 + 2) \<le> 255"
    using bytes p len by (simp_all add: nth_mem)
  from cp p have c0: "px0 ! (p * 3) = of_nat (dat0 ! (p * 4))"
    "px0 ! (p * 3 + 1) = of_nat (dat0 ! (p * 4 + 1))"
    "px0 ! (p * 3 + 2) = of_nat (dat0 ! (p * 4 + 2))"
    by (simp_all add: copied_def)
  have ne: "EINK_PALETTE \<noteq> []" by (simp add: EINK_PALETTE_def)
  from findNearestColor_in_palette[OF ne] obtain nr ng nb where
    f: "findNearestColor (of_nat (dat0 ! (p * 4))) (of_nat (dat0 ! (p * 4 + 1)))
             (of_nat (dat0 ! (p * 4 + 2))) EINK_PALETTE = Some (nr, ng, nb)"
    by (metis prod_cases3)
  then have q: "quantPixel dat0 p
      = [toUint8Clamped nr, toUint8Clamped ng, toUint8Clamped nb, dat0 ! (p * 4 + 3)]"
    by (simp add: quantPixel_def)
  have f': "findNearestColor (max 0 (min 255 (px ! ((y * w + x) * 3))))
             (max 0 (min 255 (px ! ((y * w + x) * 3 + 1))))
             (max 0 (min 255 (px ! ((y * w + x) * 3 + 2)))) EINK_PALETTE = Some (nr, ng, nb)"
    using f c0 b unfolding px p_def[symmetric] by (simp only: clamp_byte)
  let ?dat' = "dat[p * 4 := toUint8Clamped nr, p * 4 + 1 := toUint8Clamped ng,
                         p * 4 + 2 := toUint8Clamped nb]"
  from ditherPixel_Some[OF f', of False h dat]
  have r: "ditherPixel EINK_PALETTE False w h y x (px, dat) = Inr (px0, ?dat')"
    unfolding p_def px by auto
  have old: "if i < p
            then dat ! (i * 4) = quantPixel dat0 i ! 0 \<and>
                 dat ! (i * 4 + 1) = quantPixel dat0 i ! 1 \<and>
                 dat ! (i * 4 + 2) = quantPixel dat0 i ! 2 \<and>
                 dat ! (i * 4 + 3) = quantPixel dat0 i ! 3
            else dat ! (i * 4) = dat0 ! (i * 4) \<and>
                 dat ! (i * 4 + 1) = dat0 ! (i * 4 + 1) \<and>
                 dat ! (i * 4 + 2) = dat0 ! (i * 4 + 2) \<and>
                 dat ! (i * 4 + 3) = dat0 ! (i * 4 + 3)" if "i < w * h" for i
    using inv that unfolding mappedUpTo_def st p_def snd_conv by blast
  have new: "if i < Suc p
            then ?dat' ! (i * 4) = quantPixel dat0 i ! 0 \<and>
                 ?dat' ! (i * 4 + 1) = quantPixel dat0 i ! 1 \<and>
                 ?dat' ! (i * 4 + 2) = quantPixel dat0 i ! 2 \<and>
                 ?dat' ! (i * 4 + 3) = quantPixel dat0 i ! 3
            else ?dat' ! (i * 4) = dat0 ! (i * 4) \<and>
                 ?dat' ! (i * 4 + 1) = dat0 ! (i * 4 + 1) \<and>
                 ?dat' ! (i * 4 + 2) = dat0 ! (i * 4 + 2) \<and>
                 ?dat' ! (i * 4 + 3) = dat0 ! (i * 4 + 3)" if i: "i < w * h" for i
  proof (cases "i = p")
    case True
    have "p * 4 + 3 < length dat" using p dlen by simp
    moreover have "dat ! (p * 4 + 3) = dat0 ! (p * 4 + 3)" using old[OF p] by simp
    ultimately show ?thesis using True q by simp
  next
    case False
    then have "?dat' ! (i * 4) = dat ! (i * 4)" "?dat' ! (i * 4 + 1) = dat ! (i * 4 + 1)"
      "?dat' ! (i * 4 + 2) = dat ! (i * 4 + 2)" "?dat' ! (i * 4 + 3) = dat ! (i * 4 + 3)"
      by simp_all
    moreover have "i < Suc p \<longleftrightarrow> i < p" using False by auto
    ultimately show ?thesis using old[OF i] by (simp split: if_splits)
  qed
  have dlen': "length ?dat' = w * h * 4" using dlen by simp
  have "mappedUpTo px0 dat0 (w * h) (Suc p) (px0, ?dat')"
    unfolding mappedUpTo_def fst_conv snd_conv using new dlen' by blast
  with r show ?thesis unfolding st p_def by simp
qed

lemma dither_False_map:
  assumes "wf_ImageData img"
  shows "dither img None False = Inr (nearestColorMap img)"
proof -
  define w h dat0 where "w = width img" and "h = height img" and "dat0 = data img"
  define px0 where "px0 = forLoop 0 (w * h) (copyRGB dat0) (replicate (w * h * 3) 0)"
  from assms have len: "length dat0 = w * h * 4" and bytes: "\<forall>v \<in> set dat0. v \<le> 255"
    by (simp_all add: wf_ImageData_def w_def h_def dat0_def)
  have cp: "copied dat0 (w * h) (w * h) px0" unfolding px0_def by (rule copy_loop_copied)
  have "\<exists>st. forLoopE 0 h (\<lambda>y. forLoopE 0 w (\<lambda>x. ditherPixel EINK_PALETTE False w h y x))
               (px0, dat0) = Inr st \<and> mappedUpTo px0 dat0 (w * h) (h * w) st"
  proof (rule nested_inv[where Q = "mappedUpTo px0 dat0 (w * h)"])
    show "mappedUpTo px0 dat0 (w * h) 0 (px0, dat0)" using len by (simp add: mappedUpTo_def)
  next
    fix y x t
    assume "y < h" "x < w" "mappedUpTo px0 dat0 (w * h) (y * w + x) t"
    with len bytes cp show "\<exists>t'. ditherPixel EINK_PALETTE False w h y x t = Inr t' \<and>
                mappedUpTo px0 dat0 (w * h) (Suc (y * w + x)) t'"
      by (intro ditherPixel_mappedUpTo)
  qed
  then obtain st where st: "forLoopE 0 h (\<lambda>y. forLoopE 0 w (\<lambda>x. ditherPixel EINK_PALETTE False w h y x))
               (px0, dat0) = Inr st" "mappedUpTo px0 dat0 (w * h) (w * h) st"
    by (auto simp: mult.commute)
  let ?q = "concat (map (quantPixel dat0) [0..<w * h])"
  from concat_blocks[of "quantPixel dat0" "w * h"] have
    qlen: "length ?q = w * h * 4" and
    qnth: "\<And>i c. i < w * h \<Longrightarrow> c < 4 \<Longrightarrow> ?q ! (i * 4 + c) = quantPixel dat0 i ! c"
    by (simp_all add: quantPixel_length)
  from st(2) have slen: "length (snd st) = w * h * 4"
    and snth: "\<And>i. i < w * h \<Longrightarrow>
                 snd st ! (i * 4) = quantPixel dat0 i ! 0 \<and>
                 snd st ! (i * 4 + 1) = quantPixel dat0 i ! 1 \<and>
                 snd st ! (i * 4 + 2) = quantPixel dat0 i ! 2 \<and>
                 snd st ! (i * 4 + 3) = quantPixel dat0 i ! 3"
    by (simp_all add: mappedUpTo_def)
  have "snd st = ?q"
  proof (rule nth_equalityI)
    show "length (snd st) = length ?q" using slen qlen by simp
  next
    fix j assume "j < length (snd st)"
    then have j: "j div 4 < w * h" using slen by simp
    have c: "j mod 4 < 4" by simp
    have split: "j = (j div 4) * 4 + j mod 4" by simp
    have "snd st ! ((j div 4) * 4 + j mod 4) = quantPixel dat0 (j div 4) ! (j mod 4)"
    proof -
      from c have "j mod 4 = 0 \<or> j mod 4 = 1 \<or> j mod 4 = 2 \<or> j mod 4 = 3" by linarith
      then show ?thesis using snth[OF j] by (elim disjE) simp_all
    qed
    also have "\<dots> = ?q ! ((j div 4) * 4 + j mod 4)" using qnth[OF j c] by simp
    finally show "snd st ! j = ?q ! j" using split by simp
  qed
  then show ?thesis using st(1)
    by (simp add: dither_def nearestColorMap_def Let_def w_def h_def dat0_def px0_def)
qed

section \<open>Dithering on and off\<close>

lemma forLoopE_done: "n \<le> i \<Longrightarrow> forLoopE i n body s = Inr s"
  by (subst forLoopE.simps) simp

lemma forLoopE_one: "forLoopE 0 (Suc 0) body s = body 0 s"
  by (subst forLoopE.simps) (simp add: forLoopE_done split: sum.splits)

lemma ditherPixel_single:
  "(case ditherPixel palette True 1 1 0 0 st of Inl e \<Rightarrow> Inl e | Inr st' \<Rightarrow> Inr (snd st'))
   = (case ditherPixel palette False 1 1 0 0 st of Inl e \<Rightarrow> Inl e | Inr st' \<Rightarrow> Inr (snd st'))"
  by (simp add: ditherPixel_def Let_def split: option.splits prod.splits)

lemma dither_single_pixel:
  assumes "width img = 1" and "height img = 1"
  shows "dither img palette True = dither img palette False"
proof -
  have "dither img palette d =
      (case ditherPixel (case palette of None \<Rightarrow> EINK_PALETTE | Some p \<Rightarrow> p) d 1 1 0 0
              (forLoop 0 1 (copyRGB (data img)) (replicate 3 0), data img) of
         Inl e \<Rightarrow> Inl e | Inr st \<Rightarrow> Inr (img\<lparr>data := snd st\<rparr>))" for d
    using assms by (simp add: dither_def Let_def forLoopE_one)
  moreover have "(case r of Inl e \<Rightarrow> Inl e | Inr st \<Rightarrow> Inr (img\<lparr>data := snd st\<rparr>))
     = (case (case r of Inl e \<Rightarrow> Inl e | Inr st' \<Rightarrow> Inr (snd st')) of
          Inl e \<Rightarrow> Inl e | Inr d \<Rightarrow> Inr (img\<lparr>data := d\<rparr>))" for r :: "error + rat list \<times> nat list"
    by (cases r) simp_all
  ultimately show ?thesis by (simp only: ditherPixel_single)
qed

lemma rgbAt_nearestColorMap:
  assumes "x < width img" and "y < height img"
  shows "rgbAt (nearestColorMap img) x y = quantColor (rgbAt img x y)"
proof -
  define p where "p = y * width img + x"
  have p: "p < width img * height img"
    unfolding p_def using assms(2,1) by (rule pixel_index_less)
  let ?q = "concat (map (quantPixel (data img)) [0..<width img * height img])"
  from concat_blocks[of "quantPixel (data img)" "width img * height img"] have
    qnth: "\<And>i c. i < width img * height img \<Longrightarrow> c < 4
             \<Longrightarrow> ?q ! (i * 4 + c) = quantPixel (data img) i ! c"
    by (simp_all add: quantPixel_length)
  have "?q ! (p * 4) = quantPixel (data img) p ! 0" using qnth[OF p, of 0] by simp
  moreover have "?q ! (p * 4 + 1) = quantPixel (data img) p ! 1" using qnth[OF p, of 1] by simp
  moreover have "?q ! (p * 4 + 2) = quantPixel (data img) p ! 2" using qnth[OF p, of 2] by simp
  ultimately have "rgbAt (nearestColorMap img) x y =
     (of_nat (quantPixel (data img) p ! 0), of_nat (quantPixel (data img) p ! 1),
      of_nat (quantPixel (data img) p ! 2))"
    by (simp add: rgbAt_def nearestColorMap_def Let_def p_def)
  also have "\<dots> = quantColor (rgbAt img x y)"
  proof -
    have "EINK_PALETTE \<noteq> []" by (simp add: EINK_PALETTE_def)
    from findNearestColor_in_palette[OF this]
    obtain c where "findNearestColor (of_nat (data img ! (p * 4))) (of_nat (data img ! (p * 4 + 1)))
             (of_nat (data img ! (p * 4 + 2))) EINK_PALETTE = Some c" by blast
    then show ?thesis
      by (cases c) (simp add: quantColor_def quantPixel_def rgbAt_def Let_def p_def)
  qed
  finally show ?thesis .
qed

text \<open>
  Claim C10. Without dithering, the colour of an output pixel depends only on the colour
  of the input pixel at the same place: two rasters of the same size that agree in the
  colour at \<open>(x, y)\<close> are both converted, and the results agree in the colour at \<open>(x, y)\<close>.
\<close>

theorem dither_disabled_pixel_local:
  assumes "wf_ImageData a" and "wf_ImageData b"
    and "width a = width b" and "height a = height b"
    and "x < width a" and "y < height a"
    and "rgbAt a x y = rgbAt b x y"
  shows "\<exists>oa ob. dither a None False = Inr oa \<and> dither b None False = Inr ob \<and>
           rgbAt oa x y = rgbAt ob x y"
proof -
  have "rgbAt (nearestColorMap a) x y = quantColor (rgbAt a x y)"
    using assms(5,6) by (rule rgbAt_nearestColorMap)
  moreover have "rgbAt (nearestColorMap b) x y = quantColor (rgbAt b x y)"
    using assms(3-6) by (intro rgbAt_nearestColorMap) simp_all
  ultimately have "rgbAt (nearestColorMap a) x y = rgbAt (nearestColorMap b) x y"
    using assms(7) by simp
  then show ?thesis
    using dither_False_map[OF assms(1)] dither_False_map[OF assms(2)] by simp
qed

theorem dither_disabled_pixel_local_witness:
  "wf_ImageData gray2 \<and> wf_ImageData (gray2\<lparr>data := [128, 128, 128, 255, 7, 200, 31, 0]\<rparr>) \<and>
   rgbAt gray2 0 0 = rgbAt (gray2\<lparr>data := [128, 128, 128, 255, 7, 200, 31, 0]\<rparr>) 0 0 \<and>
   rgbAt gray2 1 0 \<noteq> rgbAt (gray2\<lparr>data := [128, 128, 128, 255, 7, 200, 31, 0]\<rparr>) 1 0 \<and>
   (\<exists>oa ob. dither gray2 None False = Inr oa \<and>
       dither (gray2\<lparr>data := [128, 128, 128, 255, 7, 200, 31, 0]\<rparr>) None False = Inr ob \<and>
       rgbAt oa 0 0 = rgbAt ob 0 0)"
proof -
  let ?b = "gray2\<lparr>data := [128, 128, 128, 255, 7, 200, 31, 0]\<rparr>"
  have 1: "wf_ImageData gray2" by (rule gray2_wf)
  have 2: "wf_ImageData ?b" by (simp add: wf_ImageData_def gray2_def)
  have 3: "rgbAt gray2 0 0 = rgbAt ?b 0 0" by (simp add: rgbAt_def gray2_def)
  have 4: "rgbAt gray2 1 0 \<noteq> rgbAt ?b 1 0" by (simp add: rgbAt_def gray2_def)
  from dither_disabled_pixel_local[OF 1 2 _ _ _ _ 3] 1 2 3 4 show ?thesis
    by (simp add: gray2_def)
qed

text \<open>
  Claim C8. Without dithering, \<open>dither\<close> is nearest-colour mapping pixel by pixel, with no
  error carried over. On a raster of a single pixel, dithering on and off give the same
  result. On the raster of two grey pixels they differ.
\<close>

theorem dither_disabled_is_nearest_mapping:
  assumes "wf_ImageData img"
  shows "dither img None False = Inr (nearestColorMap img) \<and>
         (width img = 1 \<and> height img = 1 \<longrightarrow> dither img None True = dither img None False) \<and>
         (\<exists>img2. wf_ImageData img2 \<and> 1 < width img2 * height img2 \<and>
            dither img2 None True \<noteq> dither img2 None False)"
proof -
  have "wf_ImageData gray2 \<and> 1 < width gray2 * height gray2 \<and>
       dither gray2 None True \<noteq> dither gray2 None False"
    using gray2_wf by (simp add: gray2_dithered gray2_mapped) (simp add: gray2_def)
  then show ?thesis
    using dither_False_map[OF assms] dither_single_pixel[of img None] by blast
qed

theorem dither_disabled_is_nearest_mapping_witness:
  "wf_ImageData pixel1 \<and> width pixel1 = 1 \<and> height pixel1 = 1 \<and>
   dither pixel1 None False = Inr (nearestColorMap pixel1) \<and>
   dither pixel1 None True = dither pixel1 None False \<and>
   nearestColorMap pixel1 = \<lparr>width = 1, height = 1, data = [0, 0, 255, 255]\<rparr>"
proof -
  have 1: "wf_ImageData pixel1" by (simp add: wf_ImageData_def pixel1_def)
  have 2: "width pixel1 = 1 \<and> height pixel1 = 1" by (simp add: pixel1_def)
  have 3: "nearestColorMap pixel1 = \<lparr>width = 1, height = 1, data = [0, 0, 255, 255]\<rparr>"
    by code_simp
  from dither_disabled_is_nearest_mapping[OF 1] 1 2 3 show ?thesis by simp
qed

section \<open>Rasters of palette colours\<close>

lemma findNearestColor_palette_entries:
  "findNearestColor 0 0 0 EINK_PALETTE = Some (0, 0, 0)"
  "findNearestColor 255 255 255 EINK_PALETTE = Some (255, 255, 255)"
  "findNearestColor 0 255 0 EINK_PALETTE = Some (0, 255, 0)"
  "findNearestColor 0 0 255 EINK_PALETTE = Some (0, 0, 255)"
  "findNearestColor 255 0 0 EINK_PALETTE = Some (255, 0, 0)"
  "findNearestColor 255 255 0 EINK_PALETTE = Some (255, 255, 0)"
  "findNearestColor 255 128 0 EINK_PALETTE = Some (255, 128, 0)"
  by (simp_all add: findNearestColor_def EINK_PALETTE_def Let_def)

lemma findNearestColor_palette_entry:
  assumes "(r, g, b) \<in> set EINK_PALETTE"
  shows "findNearestColor r g b EINK_PALETTE = Some (r, g, b)"
proof -
  from assms have "(r, g, b) \<in> {(0, 0, 0), (255, 255, 255), (0, 255, 0), (0, 0, 255),
      (255, 0, 0), (255, 255, 0), (255, 128, 0)}"
    by (simp add: EINK_PALETTE_def)
  then show ?thesis
    by (elim insertE emptyE) (simp_all only: prod.inject findNearestColor_palette_entries)
qed

lemma clamp_palette_entry:
  assumes "(r, g, b) \<in> set EINK_PALETTE"
  shows "max 0 (min 255 r) = r" and "max 0 (min 255 g) = g" and "max 0 (min 255 b) = b"
  using assms by (auto simp: EINK_PALETTE_def)

lemma addErr_zero: "addErr px i 0 0 0 k = px"
  by (simp add: addErr_def addAt_def)

lemma ditherPixel_palette_fixed:
  assumes c: "(r, g, b) \<in> set EINK_PALETTE"
    and px: "px ! ((y * w + x) * 3) = r" "px ! ((y * w + x) * 3 + 1) = g"
      "px ! ((y * w + x) * 3 + 2) = b"
    and dat: "rat_of_nat (dat ! ((y * w + x) * 4)) = r"
      "rat_of_nat (dat ! ((y * w + x) * 4 + 1)) = g"
      "rat_of_nat (dat ! ((y * w + x) * 4 + 2)) = b"
  shows "ditherPixel EINK_PALETTE dith w h y x (px, dat) = Inr (px, dat)"
proof -
  define p where "p = y * w + x"
  note cl = clamp_palette_entry[OF c]
  have f: "findNearestColor (max 0 (min 255 (px ! (p * 3)))) (max 0 (min 255 (px ! (p * 3 + 1))))
             (max 0 (min 255 (px ! (p * 3 + 2)))) EINK_PALETTE = Some (r, g, b)"
    unfolding p_def px cl by (rule findNearestColor_palette_entry[OF c])
  have "rat_of_nat (toUint8Clamped r) = rat_of_nat (dat ! (p * 4))"
    "rat_of_nat (toUint8Clamped g) = rat_of_nat (dat ! (p * 4 + 1))"
    "rat_of_nat (toUint8Clamped b) = rat_of_nat (dat ! (p * 4 + 2))"
    unfolding p_def dat using toUint8Clamped_palette[OF c] by simp_all
  then have u: "toUint8Clamped r = dat ! (p * 4)" "toUint8Clamped g = dat ! (p * 4 + 1)"
    "toUint8Clamped b = dat ! (p * 4 + 2)"
    by (simp_all only: of_nat_eq_iff)
  have d: "dat[p * 4 := toUint8Clamped r, p * 4 + 1 := toUint8Clamped g,
               p * 4 + 2 := toUint8Clamped b] = dat"
    unfolding u by simp
  have e: "max 0 (min 255 (px ! (p * 3))) - r = 0" "max 0 (min 255 (px ! (p * 3 + 1))) - g = 0"
    "max 0 (min 255 (px ! (p * 3 + 2))) - b = 0"
    unfolding p_def px cl by simp_all
  show ?thesis
    unfolding ditherPixel_def Let_def fst_conv snd_conv p_def[symmetric] f option.case prod.case
      d e addErr_zero
    by simp
qed

lemma dither_palette_raster_fixed:
  assumes wf: "wf_ImageData img"
    and pal: "\<forall>y<height img. \<forall>x<width img. rgbAt img x y \<in> set EINK_PALETTE"
  shows "dither img None dith = Inr img"
proof -
  define w h dat0 where "w = width img" and "h = height img" and "dat0 = data img"
  define px0 where "px0 = forLoop 0 (w * h) (copyRGB dat0) (replicate (w * h * 3) 0)"
  have cp: "copied dat0 (w * h) (w * h) px0" unfolding px0_def by (rule copy_loop_copied)
  have "\<exists>st. forLoopE 0 h (\<lambda>y. forLoopE 0 w (\<lambda>x. ditherPixel EINK_PALETTE dith w h y x))
               (px0, dat0) = Inr st \<and> st = (px0, dat0)"
  proof (rule nested_inv[where Q = "\<lambda>p st. st = (px0, dat0)"])
    show "(px0, dat0) = (px0, dat0)" by simp
  next
    fix y x t
    assume y: "y < h" and x: "x < w" and t: "t = (px0, dat0)"
    define p where "p = y * w + x"
    have p: "p < w * h" unfolding p_def using y x by (rule pixel_index_less)
    from pal y x have c: "(rat_of_nat (dat0 ! (p * 4)), rat_of_nat (dat0 ! (p * 4 + 1)),
        rat_of_nat (dat0 ! (p * 4 + 2))) \<in> set EINK_PALETTE"
      unfolding w_def h_def dat0_def p_def rgbAt_def Let_def by blast
    from cp p have c0: "px0 ! (p * 3) = of_nat (dat0 ! (p * 4))"
      "px0 ! (p * 3 + 1) = of_nat (dat0 ! (p * 4 + 1))"
      "px0 ! (p * 3 + 2) = of_nat (dat0 ! (p * 4 + 2))"
      by (simp_all add: copied_def)
    have "ditherPixel EINK_PALETTE dith w h y x (px0, dat0) = Inr (px0, dat0)"
      by (rule ditherPixel_palette_fixed[OF c]) (simp_all only: p_def[symmetric] c0)
    then show "\<exists>t'. ditherPixel EINK_PALETTE dith w h y x t = Inr t' \<and> t' = (px0, dat0)"
      using t by simp
  qed
  then show ?thesis
    by (simp add: dither_def Let_def w_def h_def dat0_def px0_def)
qed


text \<open>
  Claim C7 fails as stated: the raster of two pixels of the grey \<open>(128, 128, 128)\<close> is
  uniform and the palette entry nearest to its colour is orange, but with dithering the
  second pixel comes out blue, because it has received 7/16 of the error of the first.
\<close>

theorem dither_uniform_gray_counterexample:
  "wf_ImageData gray2 \<and>
   rgbAt gray2 0 0 = (128, 128, 128) \<and> rgbAt gray2 1 0 = (128, 128, 128) \<and>
   findNearestColor 128 128 128 EINK_PALETTE = Some (255, 128, 0) \<and>
   dither gray2 None True
     = Inr \<lparr>width = 2, height = 1, data = [255, 128, 0, 255, 0, 0, 255, 255]\<rparr> \<and>
   rgbAt \<lparr>width = 2, height = 1, data = [255, 128, 0, 255, 0, 0, 255, 255]\<rparr> 1 0
     = (0, 0, 255)"
proof -
  have "findNearestColor 128 128 128 EINK_PALETTE = Some (255, 128, 0)"
    by (simp add: findNearestColor_def EINK_PALETTE_def Let_def)
  moreover have "rgbAt gray2 0 0 = (128, 128, 128)" "rgbAt gray2 1 0 = (128, 128, 128)"
    by (simp_all add: rgbAt_def gray2_def)
  moreover have "rgbAt \<lparr>width = 2, height = 1, data = [255, 128, 0, 255, 0, 0, 255, 255]\<rparr> 1 0
     = (0, 0, 255)"
    by (simp add: rgbAt_def)
  ultimately show ?thesis using gray2_wf gray2_dithered by simp
qed

text \<open>
  Claim C7, amended. For every raster all of whose pixels have the same colour, that
  colour being one of the seven palette entries, \<open>dither\<close> with dithering returns a raster
  in which every pixel has that colour, the nearest palette entry of itself: the error is
  zero at every pixel.
\<close>

theorem dither_uniform_palette_color:
  assumes "wf_ImageData img" and "c \<in> set EINK_PALETTE"
    and "\<forall>y<height img. \<forall>x<width img. rgbAt img x y = c"
  shows "\<exists>out. dither img None True = Inr out \<and>
           (\<forall>y<height img. \<forall>x<width img. rgbAt out x y = c) \<and>
           findNearestColor (fst c) (fst (snd c)) (snd (snd c)) EINK_PALETTE = Some c"
proof -
  from assms(2,3) have "\<forall>y<height img. \<forall>x<width img. rgbAt img x y \<in> set EINK_PALETTE"
    by simp
  with assms(1) have "dither img None True = Inr img" by (rule dither_palette_raster_fixed)
  moreover have "findNearestColor (fst c) (fst (snd c)) (snd (snd c)) EINK_PALETTE = Some c"
    using findNearestColor_palette_entry[of "fst c" "fst (snd c)" "snd (snd c)"] assms(2)
    by simp
  ultimately show ?thesis using assms(3) by simp
qed

theorem dither_uniform_palette_color_witness:
  "wf_ImageData red4 \<and> (255, 0, 0) \<in> set EINK_PALETTE \<and>
   rgbAt red4 0 0 = (255, 0, 0) \<and> rgbAt red4 1 0 = (255, 0, 0) \<and>
   rgbAt red4 0 1 = (255, 0, 0) \<and> rgbAt red4 1 1 = (255, 0, 0) \<and>
   (\<exists>out. dither red4 None True = Inr out \<and>
      rgbAt out 0 0 = (255, 0, 0) \<and> rgbAt out 1 0 = (255, 0, 0) \<and>
      rgbAt out 0 1 = (255, 0, 0) \<and> rgbAt out 1 1 = (255, 0, 0))"
proof -
  have 1: "wf_ImageData red4" by (simp add: wf_ImageData_def red4_def)
  have 2: "(255, 0, 0) \<in> set EINK_PALETTE" by (simp add: EINK_PALETTE_def)
  have px: "rgbAt red4 0 0 = (255, 0, 0)" "rgbAt red4 1 0 = (255, 0, 0)"
    "rgbAt red4 0 1 = (255, 0, 0)" "rgbAt red4 1 1 = (255, 0, 0)"
    by (simp_all add: rgbAt_def red4_def)
  have "x = 0 \<or> x = 1" if "x < 2" for x :: nat using that by auto
  then have 3: "\<forall>y<height red4. \<forall>x<width red4. rgbAt red4 x y = (255, 0, 0)"
    using px by (auto simp: red4_def)
  from dither_uniform_palette_color[OF 1 2 3] obtain out where
    "dither red4 None True = Inr out"
    "\<forall>y<height red4. \<forall>x<width red4. rgbAt out x y = (255, 0, 0)" by blast
  moreover have "height red4 = 2" "width red4 = 2" by (simp_all add: red4_def)
  ultimately have "dither red4 None True = Inr out \<and>
      rgbAt out 0 0 = (255, 0, 0) \<and> rgbAt out 1 0 = (255, 0, 0) \<and>
      rgbAt out 0 1 = (255, 0, 0) \<and> rgbAt out 1 1 = (255, 0, 0)" by simp
  with 1 2 px show ?thesis by blast
qed

section \<open>Fitting\<close>

lemma floor_rat_numeral_div:
  "\<lfloor>(numeral a :: rat) / numeral b\<rfloor> = numeral a div numeral b"
  using floor_divide_of_int_eq[of "numeral a" "numeral b", where ?'a = rat] by simp

lemma floor_rat_neg_numeral_div:
  "\<lfloor>- ((numeral a :: rat) / numeral b)\<rfloor> = (- numeral a) div numeral b"
  using floor_divide_of_int_eq[of "- numeral a" "numeral b", where ?'a = rat] by simp

lemma resizeScaleCanvas_square1000:
  "resizeScaleCanvas square1000 LANDSCAPE =
     \<lparr>canvas_width = 800, canvas_height = 480,
      calls = [FillRect ''#FFFFFF'' (Fin 0) (Fin 0) (Fin 800) (Fin 480),
               DrawImage square1000 (Fin 0) (Fin (- 160)) (Fin 800) (Fin 800)]\<rparr>"
  by (simp add: resizeScaleCanvas_def LANDSCAPE_def square1000_def js_nat_def js_sub_def Let_def
        floor_rat_numeral_div floor_rat_neg_numeral_div)

lemma resizeScaleCanvas_photo4000:
  "resizeScaleCanvas photo4000 LANDSCAPE =
     \<lparr>canvas_width = 800, canvas_height = 480,
      calls = [FillRect ''#FFFFFF'' (Fin 0) (Fin 0) (Fin 800) (Fin 480),
               DrawImage photo4000 (Fin 0) (Fin (- 60)) (Fin 800) (Fin 600)]\<rparr>"
  by (simp add: resizeScaleCanvas_def LANDSCAPE_def photo4000_def js_nat_def js_sub_def Let_def
        floor_rat_numeral_div floor_rat_neg_numeral_div)

text \<open>
  Claim C6. For every source image and every target, \<open>resizeScale\<close> and \<open>resizeCut\<close> make
  the same drawing calls on the same canvas (the white fill, then the image scaled by the
  larger of the two ratios, its size rounded, its offset the floor of half the
  difference) and so return the same raster, whatever the browser's rasteriser \<open>G\<close> is;
  \<open>convert\<close> returns the same with the mode \<open>cut\<close> as with the mode \<open>scale\<close>. For a source
  of 4000 by 3000 and the landscape target, the image is drawn 800 by 600 at \<open>(0, -60)\<close>.
\<close>

theorem resizeScale_eq_resizeCut:
  "resizeScale G img target = resizeCut G img target \<and>
   resizeScaleCanvas img target = resizeCutCanvas img target \<and>
   convert G img (options\<lparr>opt_mode := Some ''cut''\<rparr>)
     = convert G img (options\<lparr>opt_mode := Some ''scale''\<rparr>) \<and>
   resizeCutCanvas photo4000 LANDSCAPE =
     \<lparr>canvas_width = 800, canvas_height = 480,
      calls = [FillRect ''#FFFFFF'' (Fin 0) (Fin 0) (Fin 800) (Fin 480),
               DrawImage photo4000 (Fin 0) (Fin (- 60)) (Fin 800) (Fin 600)]\<rparr>"
proof -
  have c: "resizeScaleCanvas i t = resizeCutCanvas i t" for i t
    by (simp add: resizeScaleCanvas_def resizeCutCanvas_def)
  then have r: "resizeScale G i t = resizeCut G i t" for i t
    by (simp add: resizeScale_def resizeCut_def)
  have "convertFit G img (options\<lparr>opt_mode := Some ''cut''\<rparr>)
     = convertFit G img (options\<lparr>opt_mode := Some ''scale''\<rparr>)"
    by (simp add: convertFit_def convertTarget_def r)
  then have "convert G img (options\<lparr>opt_mode := Some ''cut''\<rparr>)
     = convert G img (options\<lparr>opt_mode := Some ''scale''\<rparr>)"
    by (simp add: convert_def convertTarget_def)
  with c r resizeScaleCanvas_photo4000 show ?thesis by simp
qed

text \<open>
  Claim C3 does not hold of the code: \<open>convert\<close> never reads the crop rectangle that the
  page passes to it. Its result is the same for every crop rectangle and for none. For a
  source of 1000 by 1000, the landscape target and the crop rectangle of the top 600
  rows, the canvas receives the whole image drawn 800 by 800 at \<open>(0, -160)\<close>, which shows
  the rows 200 to 800 of the source, not the crop rectangle drawn onto the whole target.
\<close>

theorem convert_ignores_crop:
  "convert G img (options\<lparr>opt_crop := Some c\<rparr>) = convert G img (options\<lparr>opt_crop := None\<rparr>) \<and>
   convertFit G img (options\<lparr>opt_crop := Some c\<rparr>)
     = convertFit G img (options\<lparr>opt_crop := None\<rparr>) \<and>
   convertFit G square1000
       \<lparr>opt_mode = None, opt_dither = None, opt_orientation = Some ''landscape'',
        opt_crop = Some topCrop\<rparr>
     = G \<lparr>canvas_width = 800, canvas_height = 480,
          calls = [FillRect ''#FFFFFF'' (Fin 0) (Fin 0) (Fin 800) (Fin 480),
                   DrawImage square1000 (Fin 0) (Fin (- 160)) (Fin 800) (Fin 800)]\<rparr>
         0 0 800 480 \<and>
   samplingOf (DrawImage square1000 (Fin 0) (Fin (- 160)) (Fin 800) (Fin 800))
     = Some (Sampling (Fin 0) (Fin 0) (Fin 1000) (Fin 1000)
               (Fin 0) (Fin (- 160)) (Fin 800) (Fin 800)) \<and>
   cropSampling topCrop LANDSCAPE
     = Sampling (Fin 0) (Fin 0) (Fin 1000) (Fin 600) (Fin 0) (Fin 0) (Fin 800) (Fin 480)"
proof -
  have f: "convertFit G img (options\<lparr>opt_crop := Some c\<rparr>)
     = convertFit G img (options\<lparr>opt_crop := None\<rparr>)"
    by (simp add: convertFit_def convertTarget_def)
  then have "convert G img (options\<lparr>opt_crop := Some c\<rparr>)
     = convert G img (options\<lparr>opt_crop := None\<rparr>)"
    by (simp add: convert_def convertTarget_def)
  moreover have "convertFit G square1000
       \<lparr>opt_mode = None, opt_dither = None, opt_orientation = Some ''landscape'',
        opt_crop = Some topCrop\<rparr>
     = G \<lparr>canvas_width = 800, canvas_height = 480,
          calls = [FillRect ''#FFFFFF'' (Fin 0) (Fin 0) (Fin 800) (Fin 480),
                   DrawImage square1000 (Fin 0) (Fin (- 160)) (Fin 800) (Fin 800)]\<rparr>
         0 0 800 480"
    by (simp add: convertFit_def convertTarget_def resizeScale_def
          resizeScaleCanvas_square1000) (simp add: LANDSCAPE_def)
  moreover have "samplingOf (DrawImage square1000 (Fin 0) (Fin (- 160)) (Fin 800) (Fin 800))
     = Some (Sampling (Fin 0) (Fin 0) (Fin 1000) (Fin 1000)
               (Fin 0) (Fin (- 160)) (Fin 800) (Fin 800))"
    by (simp add: square1000_def js_nat_def)
  moreover have "cropSampling topCrop LANDSCAPE
     = Sampling (Fin 0) (Fin 0) (Fin 1000) (Fin 600) (Fin 0) (Fin 0) (Fin 800) (Fin 480)"
    by (simp add: cropSampling_def topCrop_def LANDSCAPE_def js_nat_def)
  ultimately show ?thesis using f by simp
qed

section \<open>Dragging the crop frame\<close>




section \<open>The bitmap encoder\<close>

lemma rowSizeOf_stride: "rowSizeOf w = bmpStride w"
proof -
  have "\<lceil>(of_nat (w * 3) :: rat) / 4\<rceil> = - (- int (w * 3) div 4)"
    using ceiling_divide_eq_div[of "int (w * 3)" 4, where ?'a = rat] by simp
  also have "\<dots> = int ((w * 3 + 3) div 4)" by (simp add: zdiv_int)
  finally show ?thesis by (simp add: rowSizeOf_def bmpStride_def)
qed

lemma bmpStride_ge: "w * 3 \<le> bmpStride w"
  unfolding bmpStride_def by arith

lemma zeros54:
  "replicate 54 (0::nat) =
     [0, 0, 0, 0, 0, 0, 0, 0, 0, 0, 0, 0, 0, 0, 0, 0, 0, 0,
      0, 0, 0, 0, 0, 0, 0, 0, 0, 0, 0, 0, 0, 0, 0, 0, 0, 0,
      0, 0, 0, 0, 0, 0, 0, 0, 0, 0, 0, 0, 0, 0, 0, 0, 0, 0]"
  by (simp add: numeral_eq_Suc)

lemma header_writes:
  "writeAll
     [setUint8 0 0x42, setUint8 1 0x4D, setUint32 2 fileSize, setUint16 6 0, setUint16 8 0,
      setUint32 10 54, setUint32 14 40, setInt32 18 w, setInt32 22 h, setUint16 26 1,
      setUint16 28 24, setUint32 30 0, setUint32 34 pixelArraySize, setInt32 38 2835,
      setInt32 42 2835, setUint32 46 0, setUint32 50 0] (replicate 54 0 @ rest)
   = Inr (bmpFileHeader fileSize @ bmpInfoHeader w h pixelArraySize @ rest)"
  by (simp add: zeros54 setUint8_def setUint16_def setUint32_def setInt32_def
        bmpFileHeader_def bmpInfoHeader_def le16_def le32_def)


lemma length_concat_bgr: "length (concat (map (bgrAt dat w srcY) [0..<n])) = n * 3"
  by (induction n) (simp_all add: bgrAt_def)

lemma length_fileRow: "w * 3 \<le> rowSize \<Longrightarrow> length (fileRow dat w rowSize srcY) = rowSize"
  by (simp add: fileRow_def length_concat_bgr)

lemma length_concat_fileRow:
  assumes "w * 3 \<le> rowSize"
  shows "length (concat (map (\<lambda>y. fileRow dat w rowSize (f y)) [0..<n])) = n * rowSize"
  by (induction n) (simp_all add: length_fileRow[OF assms])

lemma encodePixel_splice:
  assumes len: "length pre = 54 + rowOffset + x * 3"
    and rng: "(srcY * w + x) * 4 + 2 < length dat"
    and bytes: "\<forall>v \<in> set dat. v \<le> 255"
  shows "encodePixel dat w srcY rowOffset x (pre @ x0 # x1 # x2 # post)
           = pre @ bgrAt dat w srcY x @ post"
proof -
  define i where "i = (srcY * w + x) * 4"
  have r: "i < length dat" "i + 1 < length dat" "i + 2 < length dat"
    using rng by (simp_all add: i_def)
  have "dat ! i \<le> 255" "dat ! (i + 1) \<le> 255" "dat ! (i + 2) \<le> 255"
    using bytes nth_mem[OF r(1)] nth_mem[OF r(2)] nth_mem[OF r(3)] by blast+
  then have v: "dataAt dat i mod 256 = dat ! i" "dataAt dat (i + 1) mod 256 = dat ! (i + 1)"
    "dataAt dat (i + 2) mod 256 = dat ! (i + 2)"
    using r by (simp_all add: dataAt_def)
  have idx: "54 + (rowOffset + x * 3) = length pre" "54 + (rowOffset + x * 3 + 1) = length pre + 1"
    "54 + (rowOffset + x * 3 + 2) = length pre + 2"
    using len by simp_all
  show ?thesis
    unfolding encodePixel_def pixelsStore_def Let_def i_def[symmetric] v idx bgrAt_def
    by (simp add: list_update_append)
qed

lemma encodeRow_splice:
  assumes hdr: "length hdr = 54" and A: "length A = y * rowSize"
    and rs: "w * 3 \<le> rowSize"
    and rng: "(srcY * w + w) * 4 \<le> length dat"
    and bytes: "\<forall>v \<in> set dat. v \<le> 255"
  shows "forLoop 0 w (encodePixel dat w srcY (y * rowSize)) (hdr @ A @ replicate rowSize 0 @ C)
           = hdr @ A @ fileRow dat w rowSize srcY @ C"
proof -
  let ?P = "\<lambda>x buf. buf = hdr @ A @ concat (map (bgrAt dat w srcY) [0..<x])
                          @ replicate (rowSize - x * 3) 0 @ C"
  have "?P w (forLoop 0 w (encodePixel dat w srcY (y * rowSize))
                (hdr @ A @ replicate rowSize 0 @ C))"
  proof (rule forLoop_inv[where P = ?P])
    show "?P 0 (hdr @ A @ replicate rowSize 0 @ C)" by simp
    show "0 \<le> w" by simp
  next
    fix x t
    assume x: "x < w" and t: "?P x t"
    let ?B = "concat (map (bgrAt dat w srcY) [0..<x])"
    let ?pre = "hdr @ A @ ?B"
    have "3 \<le> rowSize - x * 3" using x rs by simp
    define k where "k = rowSize - Suc x * 3"
    have k: "rowSize - x * 3 = Suc (Suc (Suc k))"
      using \<open>3 \<le> rowSize - x * 3\<close> by (simp add: k_def)
    have len: "length ?pre = 54 + y * rowSize + x * 3"
      using hdr A by (simp add: length_concat_bgr)
    have r: "(srcY * w + x) * 4 + 2 < length dat" using x rng by simp
    have "t = ?pre @ 0 # 0 # 0 # (replicate k 0 @ C)"
      using t k by simp
    then have "encodePixel dat w srcY (y * rowSize) x t
        = ?pre @ bgrAt dat w srcY x @ (replicate k 0 @ C)"
      using encodePixel_splice[OF len r bytes] by simp
    then show "?P (Suc x) (encodePixel dat w srcY (y * rowSize) x t)"
      by (simp add: k_def)
  qed
  then show ?thesis by (simp add: fileRow_def)
qed


lemma encode_rows:
  assumes hdr: "length hdr = 54" and rs: "w * 3 \<le> rowSize"
    and len: "length dat = w * h * 4" and bytes: "\<forall>v \<in> set dat. v \<le> 255"
  shows "forLoop 0 h (encodeRow dat w h rowSize) (hdr @ replicate (rowSize * h) 0)
           = hdr @ concat (map (\<lambda>y. fileRow dat w rowSize (h - 1 - y)) [0..<h])"
proof -
  let ?rows = "\<lambda>y. concat (map (\<lambda>y. fileRow dat w rowSize (h - 1 - y)) [0..<y])"
  let ?P = "\<lambda>y buf. buf = hdr @ ?rows y @ replicate (rowSize * (h - y)) 0"
  have "?P h (forLoop 0 h (encodeRow dat w h rowSize) (hdr @ replicate (rowSize * h) 0))"
  proof (rule forLoop_inv[where P = ?P])
    show "?P 0 (hdr @ replicate (rowSize * h) 0)" by simp
    show "0 \<le> h" by simp
  next
    fix y t
    assume y: "y < h" and t: "?P y t"
    have "h - y = Suc (h - Suc y)" using y by simp
    then have "rowSize * (h - y) = rowSize + rowSize * (h - Suc y)" by simp
    then have split: "replicate (rowSize * (h - y)) (0::nat)
        = replicate rowSize 0 @ replicate (rowSize * (h - Suc y)) 0"
      by (simp add: replicate_add)
    have A: "length (?rows y) = y * rowSize" using rs by (rule length_concat_fileRow)
    have "(h - 1 - y) + 1 \<le> h" using y by simp
    then have "((h - 1 - y) + 1) * w \<le> h * w" by (rule mult_le_mono1)
    then have rng: "((h - 1 - y) * w + w) * 4 \<le> length dat"
      using len by (simp add: mult.commute)
    have "encodeRow dat w h rowSize y t
        = forLoop 0 w (encodePixel dat w (h - 1 - y) (y * rowSize))
            (hdr @ ?rows y @ replicate rowSize 0 @ replicate (rowSize * (h - Suc y)) 0)"
      using t split by (simp add: encodeRow_def Let_def)
    also have "\<dots> = hdr @ ?rows y @ fileRow dat w rowSize (h - 1 - y)
                        @ replicate (rowSize * (h - Suc y)) 0"
      using hdr A rs rng bytes by (rule encodeRow_splice)
    finally show "?P (Suc y) (encodeRow dat w h rowSize y t)" by simp
  qed
  then show ?thesis by simp
qed

lemma map_rev_upt: "map f (rev [0..<h]) = map (\<lambda>y. f (h - 1 - y)) [0..<h]"
  by (rule nth_equalityI) (simp_all add: rev_nth)

lemma fileRow_bmpRow:
  "fileRow (data img) (width img) (bmpStride (width img)) y = bmpRow img y"
proof -
  have "bgrAt (data img) (width img) y = bmpPixel img y"
    by (rule ext) (simp add: bgrAt_def bmpPixel_def Let_def)
  then show ?thesis by (simp add: fileRow_def bmpRow_def)
qed

lemma length_headers: "length (bmpFileHeader a @ bmpInfoHeader b c d) = 54"
  by (simp add: bmpFileHeader_def bmpInfoHeader_def le16_def le32_def)

lemma encode_headers:
  "encode img =
     Inr (forLoop 0 (height img) (encodeRow (data img) (width img) (height img) (bmpStride (width img)))
            ((bmpFileHeader (54 + bmpStride (width img) * height img)
               @ bmpInfoHeader (width img) (height img) (bmpStride (width img) * height img))
             @ replicate (bmpStride (width img) * height img) 0))"
  using header_writes[of "54 + bmpStride (width img) * height img" "width img" "height img"
      "bmpStride (width img) * height img" "replicate (bmpStride (width img) * height img) 0"]
  by (simp add: encode_def Let_def rowSizeOf_stride replicate_add)

lemma encode_layout:
  assumes "wf_ImageData img"
  shows "encode img = Inr (bmpLayout img)"
proof -
  from assms have len: "length (data img) = width img * height img * 4"
    and bytes: "\<forall>v \<in> set (data img). v \<le> 255"
    by (simp_all add: wf_ImageData_def)
  let ?hdr = "bmpFileHeader (54 + bmpStride (width img) * height img)
               @ bmpInfoHeader (width img) (height img) (bmpStride (width img) * height img)"
  have "forLoop 0 (height img)
          (encodeRow (data img) (width img) (height img) (bmpStride (width img)))
          (?hdr @ replicate (bmpStride (width img) * height img) 0)
      = ?hdr @ concat (map (\<lambda>y. fileRow (data img) (width img) (bmpStride (width img))
                                  (height img - 1 - y)) [0..<height img])"
    using length_headers bmpStride_ge len bytes by (rule encode_rows)
  also have "\<dots> = bmpLayout img"
    by (simp add: bmpLayout_def fileRow_bmpRow map_rev_upt)
  finally show ?thesis by (simp only: encode_headers)
qed

lemma length_bmpRow: "length (bmpRow img y) = bmpStride (width img)"
  using length_fileRow[OF bmpStride_ge, of "data img" "width img" y]
  by (simp add: fileRow_bmpRow)

lemma length_bmpLayout: "length (bmpLayout img) = 54 + bmpStride (width img) * height img"
proof -
  have "length (concat (map (bmpRow img) ys)) = length ys * bmpStride (width img)" for ys
    by (induction ys) (simp_all add: length_bmpRow)
  from this[of "rev [0..<height img]"] show ?thesis
    using length_headers[of "54 + bmpStride (width img) * height img" "width img" "height img"
        "bmpStride (width img) * height img"]
    by (simp add: bmpLayout_def mult.commute)
qed

lemma raster2x2_wf: "wf_ImageData raster2x2"
  by (simp add: wf_ImageData_def raster2x2_def)

lemma raster2x2_layout:
  "bmpLayout raster2x2 =
     [0x42, 0x4D, 70, 0, 0, 0, 0, 0, 0, 0, 54, 0, 0, 0,
      40, 0, 0, 0, 2, 0, 0, 0, 2, 0, 0, 0, 1, 0, 24, 0, 0, 0, 0, 0, 16, 0, 0, 0,
      19, 11, 0, 0, 19, 11, 0, 0, 0, 0, 0, 0, 0, 0, 0, 0,
      0, 0, 255, 255, 0, 0, 0, 0,
      255, 255, 255, 0, 0, 0, 0, 0]"
proof -
  have u: "[0..<2] = [0, 1]" by (simp add: upt_rec)
  have r: "replicate 2 (0::nat) = [0, 0]" by (simp add: numeral_2_eq_2)
  show ?thesis
    by (simp add: bmpLayout_def bmpFileHeader_def bmpInfoHeader_def le16_def le32_def
          bmpRow_def bmpPixel_def bmpStride_def raster2x2_def u r Let_def)
qed



text \<open>
  Claim C2. For every raster, in particular every raster with a width and a height of at
  least 1, \<open>encode\<close> returns exactly the bytes of the 24-bit bottom-up bitmap layout: the
  14-byte file header with the signature \<open>BM\<close>, the file size and the pixel-data offset
  54, the 40-byte info header (size 40, width, height, planes 1, 24 bits per pixel,
  compression 0, image size, resolution 2835 twice, two zero fields), all little-endian,
  then the rows from the last to the first, each pixel as blue, green, red without its
  alpha, each row filled with zero bytes up to the stride \<open>ceil(width * 3 / 4) * 4\<close>; the
  file has \<open>54 + stride * height\<close> bytes. The 2 by 2 raster white, black, red, blue gives
  the 70 bytes listed, whose pixel data is red, blue, two zero bytes, white, black, two
  zero bytes.
\<close>

theorem encode_bmp_layout:
  assumes "wf_ImageData img"
  shows "encode img = Inr (bmpLayout img) \<and>
         length (bmpLayout img) = 54 + bmpStride (width img) * height img \<and>
         bmpStride (width img) = nat \<lceil>(of_nat (width img * 3) :: rat) / 4\<rceil> * 4 \<and>
         encode raster2x2 =
           Inr [0x42, 0x4D, 70, 0, 0, 0, 0, 0, 0, 0, 54, 0, 0, 0,
                40, 0, 0, 0, 2, 0, 0, 0, 2, 0, 0, 0, 1, 0, 24, 0, 0, 0, 0, 0, 16, 0, 0, 0,
                19, 11, 0, 0, 19, 11, 0, 0, 0, 0, 0, 0, 0, 0, 0, 0,
                0, 0, 255, 255, 0, 0, 0, 0,
                255, 255, 255, 0, 0, 0, 0, 0]"
  using encode_layout[OF assms] encode_layout[OF raster2x2_wf] length_bmpLayout[of img]
    rowSizeOf_stride[of "width img"]
  by (simp only: raster2x2_layout rowSizeOf_def)

theorem encode_bmp_layout_witness:
  "wf_ImageData gray2 \<and> encode gray2 = Inr (bmpLayout gray2) \<and>
   length (bmpLayout gray2) = 62 \<and> bmpStride (width gray2) = 8 \<and>
   drop 54 (bmpLayout gray2) = [128, 128, 128, 128, 128, 128, 0, 0]"
proof -
  have u: "[0..<2] = [0, 1]" by (simp add: upt_rec)
  have r: "replicate 2 (0::nat) = [0, 0]" by (simp add: numeral_2_eq_2)
  have "drop 54 (bmpLayout gray2) = [128, 128, 128, 128, 128, 128, 0, 0]"
    by (simp add: bmpLayout_def bmpFileHeader_def bmpInfoHeader_def le16_def le32_def
          bmpRow_def bmpPixel_def bmpStride_def gray2_def u r Let_def)
  moreover have "bmpStride (width gray2) = 8" "height gray2 = 1"
    by (simp_all add: bmpStride_def gray2_def)
  ultimately show ?thesis
    using encode_bmp_layout[OF gray2_wf] gray2_wf by simp
qed

section \<open>The encoder has no failure\<close>










end
